theory Spec2Isabelle
  imports Main "HOL-Library.AList" "HOL-Library.Product_Lexorder" "HOL-Library.List_Lexorder"
    "HOL-Library.Char_ord"
begin

section \<open>Strings: the JavaScript string operations the key normaliser uses\<close>

text \<open>
  A JavaScript string is modelled as a \<^typ>\<open>string\<close> of code units. Case mapping and the
  classification of white space are modelled on ASCII: \<open>toUpperCase\<close> and
  \<open>toLowerCase\<close> map the 26 letters and leave every other code unit alone, \<open>\s\<close> and
  \<open>trim\<close> see tab, line feed, vertical tab, form feed, carriage return and space, and
  the line terminators (which \<open>.\<close> does not match) are line feed and carriage return.
\<close>

definition is_space :: "char \<Rightarrow> bool" where
  "is_space c \<longleftrightarrow> c \<in> {CHR 0x09, CHR 0x0A, CHR 0x0B, CHR 0x0C, CHR 0x0D, CHR 0x20}"

definition is_line_terminator :: "char \<Rightarrow> bool" where
  "is_line_terminator c \<longleftrightarrow> c = CHR 0x0A \<or> c = CHR 0x0D"

definition trim :: "string \<Rightarrow> string" where
  "trim s = rev (dropWhile is_space (rev (dropWhile is_space s)))"

definition upper_char :: "char \<Rightarrow> char" where
  "upper_char c = (let n = (of_char c :: nat) in if 97 \<le> n \<and> n \<le> 122 then char_of (n - 32) else c)"

definition lower_char :: "char \<Rightarrow> char" where
  "lower_char c = (let n = (of_char c :: nat) in if 65 \<le> n \<and> n \<le> 90 then char_of (n + 32) else c)"

definition toUpperCase :: "string \<Rightarrow> string" where
  "toUpperCase s = map upper_char s"

definition toLowerCase :: "string \<Rightarrow> string" where
  "toLowerCase s = map lower_char s"

text \<open>
  One attempt of the regular expression \<open>\s*\[.*?\]\<close> at the head of a string: the
  greedy \<open>\s*\<close> takes the whole run of white space (anything shorter is followed by
  white space, not by the bracket), the bracket must follow, and the lazy \<open>.*?\<close> stops
  at the first closing bracket, which it must reach without crossing a line terminator.
  The result is the rest of the string after the match.
\<close>

definition bracket_match :: "string \<Rightarrow> string option" where
  "bracket_match cs =
     (case dropWhile is_space cs of
        [] \<Rightarrow> None
      | c # r \<Rightarrow>
          if c = CHR ''[''
          then (case dropWhile (\<lambda>x. x \<noteq> CHR '']'' \<and> \<not> is_line_terminator x) r of
                  [] \<Rightarrow> None
                | d # rest \<Rightarrow> if d = CHR '']'' then Some rest else None)
          else None)"

lemma bracket_match_shorter:
  "bracket_match cs = Some rest \<Longrightarrow> length rest < length cs"
proof -
  assume m: "bracket_match cs = Some rest"
  then obtain r where r: "dropWhile is_space cs = CHR ''['' # r"
    by (auto simp: bracket_match_def split: list.splits if_splits)
  with m have "dropWhile (\<lambda>x. x \<noteq> CHR '']'' \<and> \<not> is_line_terminator x) r = CHR '']'' # rest"
    by (auto simp: bracket_match_def split: list.splits if_splits)
  then have "length rest < length r"
    using length_dropWhile_le [of "\<lambda>x. x \<noteq> CHR '']'' \<and> \<not> is_line_terminator x" r] by simp
  moreover have "length r < length cs"
    using length_dropWhile_le [of is_space cs] r by simp
  ultimately show ?thesis by simp
qed

text \<open>\<open>s.replace(/\s*\[.*?\]/g, "")\<close>: the matches are found from left to right, each
  search starting where the previous match ended.\<close>

function replace_bracketed :: "string \<Rightarrow> string" where
  "replace_bracketed [] = []"
| "replace_bracketed (c # cs) =
     (case bracket_match (c # cs) of
        Some rest \<Rightarrow> replace_bracketed rest
      | None \<Rightarrow> c # replace_bracketed cs)"
  by pat_completeness auto
termination
  by (relation "measure length") (auto dest: bracket_match_shorter)

definition normalizeFieldForKey :: "string option \<Rightarrow> string" where
  "normalizeFieldForKey v = toUpperCase (trim (replace_bracketed (case v of None \<Rightarrow> [] | Some s \<Rightarrow> s)))"

definition makeDispatchKey :: "string option \<Rightarrow> string option \<Rightarrow> string option \<Rightarrow> string option \<Rightarrow> string" where
  "makeDispatchKey so customer item color =
     normalizeFieldForKey so @ ''|'' @ normalizeFieldForKey customer @ ''|'' @
     normalizeFieldForKey item @ ''|'' @ normalizeFieldForKey color"

subsection \<open>Facts about the string operations\<close>




























subsection \<open>Case\<close>

















subsection \<open>Surrounding white space\<close>













subsection \<open>A bracketed annotation at the end\<close>




subsection \<open>The field separator\<close>

lemma sep_split_unique:
  "CHR ''|'' \<notin> set a \<Longrightarrow> CHR ''|'' \<notin> set a' \<Longrightarrow>
   a @ CHR ''|'' # r = a' @ CHR ''|'' # r' \<Longrightarrow> a = a' \<and> r = r'"
proof (induction a arbitrary: a')
  case Nil
  then show ?case by (cases a') auto
next
  case (Cons x xs)
  then show ?case by (cases a') auto
qed

section \<open>Properties of the key normaliser\<close>




text \<open>
  C9, as the specification states it, fails: the four normalised fields are joined
  with \<open>|\<close> and nothing escapes a \<open>|\<close> inside a field, so the tuples
  \<open>(A|B, "", "", "")\<close> and \<open>(A, B|, "", "")\<close> differ after normalisation and have the
  same key \<open>A|B|||\<close>.
\<close>

theorem makeDispatchKey_injective_counterexample:
  "makeDispatchKey (Some ''A|B'') (Some '''') (Some '''') (Some '''')
     = makeDispatchKey (Some ''A'') (Some ''B|'') (Some '''') (Some '''')
   \<and> normalizeFieldForKey (Some ''A|B'') \<noteq> normalizeFieldForKey (Some ''A'')"
  by code_simp

text \<open>
  C9, amended: when the normalised order number, customer and item of both tuples hold
  no \<open>|\<close>, the two keys are equal if and only if the four normalised fields are equal;
  and tuples that are equal after normalisation have equal keys whatever they hold.
\<close>

theorem makeDispatchKey_injective:
  "(CHR ''|'' \<notin> set (normalizeFieldForKey so) \<and> CHR ''|'' \<notin> set (normalizeFieldForKey cu) \<and>
    CHR ''|'' \<notin> set (normalizeFieldForKey it) \<and>
    CHR ''|'' \<notin> set (normalizeFieldForKey so') \<and> CHR ''|'' \<notin> set (normalizeFieldForKey cu') \<and>
    CHR ''|'' \<notin> set (normalizeFieldForKey it') \<longrightarrow>
      (makeDispatchKey so cu it co = makeDispatchKey so' cu' it' co' \<longleftrightarrow>
         normalizeFieldForKey so = normalizeFieldForKey so' \<and>
         normalizeFieldForKey cu = normalizeFieldForKey cu' \<and>
         normalizeFieldForKey it = normalizeFieldForKey it' \<and>
         normalizeFieldForKey co = normalizeFieldForKey co'))
   \<and> (normalizeFieldForKey so = normalizeFieldForKey so' \<and>
        normalizeFieldForKey cu = normalizeFieldForKey cu' \<and>
        normalizeFieldForKey it = normalizeFieldForKey it' \<and>
        normalizeFieldForKey co = normalizeFieldForKey co' \<longrightarrow>
          makeDispatchKey so cu it co = makeDispatchKey so' cu' it' co')"
proof (intro conjI impI)
  assume h: "CHR ''|'' \<notin> set (normalizeFieldForKey so) \<and> CHR ''|'' \<notin> set (normalizeFieldForKey cu) \<and>
    CHR ''|'' \<notin> set (normalizeFieldForKey it) \<and>
    CHR ''|'' \<notin> set (normalizeFieldForKey so') \<and> CHR ''|'' \<notin> set (normalizeFieldForKey cu') \<and>
    CHR ''|'' \<notin> set (normalizeFieldForKey it')"
  show "makeDispatchKey so cu it co = makeDispatchKey so' cu' it' co' \<longleftrightarrow>
         normalizeFieldForKey so = normalizeFieldForKey so' \<and>
         normalizeFieldForKey cu = normalizeFieldForKey cu' \<and>
         normalizeFieldForKey it = normalizeFieldForKey it' \<and>
         normalizeFieldForKey co = normalizeFieldForKey co'"
  proof
    assume e: "makeDispatchKey so cu it co = makeDispatchKey so' cu' it' co'"
    from e have e1: "normalizeFieldForKey so @ CHR ''|'' # (normalizeFieldForKey cu @ ''|'' @ normalizeFieldForKey it @ ''|'' @ normalizeFieldForKey co)
        = normalizeFieldForKey so' @ CHR ''|'' # (normalizeFieldForKey cu' @ ''|'' @ normalizeFieldForKey it' @ ''|'' @ normalizeFieldForKey co')"
      by (simp add: makeDispatchKey_def)
    from sep_split_unique [OF _ _ e1] h
    have s1: "normalizeFieldForKey so = normalizeFieldForKey so'"
      and e2: "normalizeFieldForKey cu @ CHR ''|'' # (normalizeFieldForKey it @ ''|'' @ normalizeFieldForKey co)
        = normalizeFieldForKey cu' @ CHR ''|'' # (normalizeFieldForKey it' @ ''|'' @ normalizeFieldForKey co')"
      by simp_all
    from sep_split_unique [OF _ _ e2] h
    have s2: "normalizeFieldForKey cu = normalizeFieldForKey cu'"
      and e3: "normalizeFieldForKey it @ CHR ''|'' # normalizeFieldForKey co
        = normalizeFieldForKey it' @ CHR ''|'' # normalizeFieldForKey co'"
      by simp_all
    from sep_split_unique [OF _ _ e3] h
    have "normalizeFieldForKey it = normalizeFieldForKey it'"
      and "normalizeFieldForKey co = normalizeFieldForKey co'"
      by simp_all
    with s1 s2 show "normalizeFieldForKey so = normalizeFieldForKey so' \<and>
         normalizeFieldForKey cu = normalizeFieldForKey cu' \<and>
         normalizeFieldForKey it = normalizeFieldForKey it' \<and>
         normalizeFieldForKey co = normalizeFieldForKey co'" by simp
  next
    assume "normalizeFieldForKey so = normalizeFieldForKey so' \<and>
         normalizeFieldForKey cu = normalizeFieldForKey cu' \<and>
         normalizeFieldForKey it = normalizeFieldForKey it' \<and>
         normalizeFieldForKey co = normalizeFieldForKey co'"
    then show "makeDispatchKey so cu it co = makeDispatchKey so' cu' it' co'"
      by (simp add: makeDispatchKey_def)
  qed
next
  assume "normalizeFieldForKey so = normalizeFieldForKey so' \<and>
        normalizeFieldForKey cu = normalizeFieldForKey cu' \<and>
        normalizeFieldForKey it = normalizeFieldForKey it' \<and>
        normalizeFieldForKey co = normalizeFieldForKey co'"
  then show "makeDispatchKey so cu it co = makeDispatchKey so' cu' it' co'"
    by (simp add: makeDispatchKey_def)
qed

theorem makeDispatchKey_injective_witness:
  "CHR ''|'' \<notin> set (normalizeFieldForKey (Some ''so 1'')) \<and>
   CHR ''|'' \<notin> set (normalizeFieldForKey (Some ''Acme [Mumbai]'')) \<and>
   CHR ''|'' \<notin> set (normalizeFieldForKey (Some ''item'')) \<and>
   CHR ''|'' \<notin> set (normalizeFieldForKey (Some ''SO 1 '')) \<and>
   CHR ''|'' \<notin> set (normalizeFieldForKey (Some ''acme'')) \<and>
   CHR ''|'' \<notin> set (normalizeFieldForKey (Some ''ITEM'')) \<and>
   makeDispatchKey (Some ''so 1'') (Some ''Acme [Mumbai]'') (Some ''item'') None
     = makeDispatchKey (Some ''SO 1 '') (Some ''acme'') (Some ''ITEM'') (Some '' '') \<and>
   normalizeFieldForKey None = normalizeFieldForKey (Some '' '')"
proof -
  have n: "normalizeFieldForKey (Some ''so 1'') = ''SO 1''"
    "normalizeFieldForKey (Some ''SO 1 '') = ''SO 1''"
    "normalizeFieldForKey (Some ''Acme [Mumbai]'') = ''ACME''"
    "normalizeFieldForKey (Some ''acme'') = ''ACME''"
    "normalizeFieldForKey (Some ''item'') = ''ITEM''"
    "normalizeFieldForKey (Some ''ITEM'') = ''ITEM''"
    "normalizeFieldForKey None = ''''"
    "normalizeFieldForKey (Some '' '') = ''''"
    by code_simp+
  from makeDispatchKey_injective [of "Some ''so 1''" "Some ''Acme [Mumbai]''" "Some ''item''"
      "Some ''SO 1 ''" "Some ''acme''" "Some ''ITEM''" None "Some '' ''"] n
  show ?thesis by simp
qed

section \<open>The verification boundary: merging records by composite key\<close>

subsection \<open>JavaScript values\<close>

text \<open>
  A record read from the verification table is a JavaScript object: its own properties,
  in insertion order, each holding a value. Numbers are modelled as integers.
\<close>

datatype jsval =
    JUndefined
  | JNull
  | JString string
  | JNumber int
  | JBoolean bool
  | JObject "(string \<times> jsval) list"

type_synonym js_record = "(string \<times> jsval) list"

definition get_prop :: "js_record \<Rightarrow> string \<Rightarrow> jsval" where
  "get_prop r p = (case map_of r p of None \<Rightarrow> JUndefined | Some v \<Rightarrow> v)"

definition set_prop :: "js_record \<Rightarrow> string \<Rightarrow> jsval \<Rightarrow> js_record" where
  "set_prop r p v = AList.update p v r"

definition object_keys :: "js_record \<Rightarrow> string list" where
  "object_keys r = remdups (map fst r)"

fun nat_digits :: "nat \<Rightarrow> string" where
  "nat_digits n = (if n < 10 then [char_of (48 + n)] else nat_digits (n div 10) @ [char_of (48 + n mod 10)])"

definition int_to_string :: "int \<Rightarrow> string" where
  "int_to_string i = (if i < 0 then CHR ''-'' # nat_digits (nat (- i)) else nat_digits (nat i))"

fun js_String :: "jsval \<Rightarrow> string" where
  "js_String JUndefined = ''undefined''"
| "js_String JNull = ''null''"
| "js_String (JString s) = s"
| "js_String (JNumber n) = int_to_string n"
| "js_String (JBoolean b) = (if b then ''true'' else ''false'')"
| "js_String (JObject kv) = ''[object Object]''"

definition nullish_string :: "jsval \<Rightarrow> string" where
  "nullish_string v = (case v of JUndefined \<Rightarrow> [] | JNull \<Rightarrow> [] | _ \<Rightarrow> js_String v)"

definition normalizeKeyPart :: "jsval \<Rightarrow> string" where
  "normalizeKeyPart s = toUpperCase (trim (replace_bracketed (nullish_string s)))"

definition makeGroupKey :: "jsval \<Rightarrow> jsval \<Rightarrow> jsval \<Rightarrow> jsval \<Rightarrow> string" where
  "makeGroupKey so customer item color =
     normalizeKeyPart so @ ''|'' @ normalizeKeyPart customer @ ''|'' @
     normalizeKeyPart item @ ''|'' @ normalizeKeyPart color"

definition record_key :: "js_record \<Rightarrow> string" where
  "record_key r = makeGroupKey (get_prop r ''SO_No'') (get_prop r ''Customer'')
                               (get_prop r ''Item'') (get_prop r ''Color'')"

fun hasTimestamp :: "jsval \<Rightarrow> bool" where
  "hasTimestamp JUndefined = False"
| "hasTimestamp JNull = False"
| "hasTimestamp (JString s) = (trim s \<noteq> [])"
| "hasTimestamp (JNumber n) = True"
| "hasTimestamp (JBoolean b) = True"
| "hasTimestamp (JObject kv) =
     (if ''value'' \<in> fst ` set kv \<and> trim (js_String (get_prop kv ''value'')) \<noteq> [] then True
      else if ''seconds'' \<in> fst ` set kv \<and> get_prop kv ''seconds'' \<noteq> JNull
                \<and> get_prop kv ''seconds'' \<noteq> JUndefined then True
      else object_keys kv \<noteq> [])"

definition is_blank :: "jsval \<Rightarrow> bool" where
  "is_blank v = (case v of JUndefined \<Rightarrow> True | JNull \<Rightarrow> True | JString s \<Rightarrow> trim s = [] | _ \<Rightarrow> False)"

definition merge_prop :: "js_record \<Rightarrow> js_record \<Rightarrow> string \<Rightarrow> js_record" where
  "merge_prop r existing prop =
     (let val = get_prop r prop; existingVal = get_prop existing prop in
      if is_blank existingVal
      then (if val \<noteq> JUndefined \<and> val \<noteq> JNull then set_prop existing prop val else existing)
      else if prop = ''verified_at''
      then (if \<not> hasTimestamp existingVal \<and> hasTimestamp val then set_prop existing prop val
            else existing)
      else existing)"

definition merge_record :: "js_record \<Rightarrow> js_record \<Rightarrow> js_record" where
  "merge_record existing r = foldl (merge_prop r) existing (object_keys r)"

fun merge_loop :: "js_record list \<Rightarrow> (string \<times> js_record) list \<Rightarrow> (string \<times> js_record) list" where
  "merge_loop [] m = m"
| "merge_loop (r # rs) m =
     (let key = record_key r in
      case map_of m key of
        None \<Rightarrow> merge_loop rs (m @ [(key, r)])
      | Some existing \<Rightarrow> merge_loop rs (AList.update key (merge_record existing r) m))"

definition mergeVerifyRows :: "js_record list \<Rightarrow> js_record list" where
  "mergeVerifyRows rows = map snd (merge_loop rows [])"


text \<open>What one more record does to the value a field holds.\<close>

definition merge_value :: "string \<Rightarrow> jsval \<Rightarrow> jsval \<Rightarrow> jsval" where
  "merge_value prop existingVal val =
     (if is_blank existingVal then (if val \<noteq> JUndefined \<and> val \<noteq> JNull then val else existingVal)
      else if prop = ''verified_at'' \<and> \<not> hasTimestamp existingVal \<and> hasTimestamp val then val
      else existingVal)"

definition group_of :: "js_record list \<Rightarrow> string \<Rightarrow> js_record list" where
  "group_of rows k = filter (\<lambda>r. record_key r = k) rows"

definition first_non_empty :: "jsval list \<Rightarrow> jsval option" where
  "first_non_empty vs = find (\<lambda>v. \<not> is_blank v) vs"

definition first_with_timestamp :: "jsval list \<Rightarrow> jsval option" where
  "first_with_timestamp vs = find hasTimestamp vs"

lemma get_prop_set_prop: "get_prop (set_prop r p v) q = (if q = p then v else get_prop r q)"
  by (simp add: get_prop_def set_prop_def update_conv')

lemma get_prop_absent: "p \<notin> fst ` set r \<Longrightarrow> get_prop r p = JUndefined"
  by (simp add: get_prop_def map_of_eq_None_iff [THEN iffD2])

lemma hasTimestamp_not_blank: "hasTimestamp v \<Longrightarrow> \<not> is_blank v"
  by (cases v) (auto simp: is_blank_def)

lemma merge_value_idem: "merge_value p (merge_value p e v) v = merge_value p e v"
  using hasTimestamp_not_blank [of v] by (auto simp: merge_value_def)

lemma merge_value_undefined: "merge_value p e JUndefined = e"
  by (simp add: merge_value_def)

lemma get_prop_merge_prop:
  "get_prop (merge_prop r ex q) p =
     (if p = q then merge_value q (get_prop ex q) (get_prop r q) else get_prop ex p)"
  by (auto simp: merge_prop_def merge_value_def Let_def get_prop_set_prop)

lemma get_prop_foldl_merge_prop:
  "get_prop (foldl (merge_prop r) ex ks) p =
     (if p \<in> set ks then merge_value p (get_prop ex p) (get_prop r p) else get_prop ex p)"
proof (induction ks arbitrary: ex)
  case Nil
  show ?case by simp
next
  case (Cons k ks)
  show ?case
    by (simp add: Cons.IH get_prop_merge_prop merge_value_idem)
qed

lemma get_prop_merge_record:
  "get_prop (merge_record ex r) p = merge_value p (get_prop ex p) (get_prop r p)"
proof (cases "p \<in> fst ` set r")
  case True
  then show ?thesis by (simp add: merge_record_def object_keys_def get_prop_foldl_merge_prop)
next
  case False
  then show ?thesis
    by (simp add: merge_record_def object_keys_def get_prop_foldl_merge_prop
        get_prop_absent merge_value_undefined)
qed

lemma get_prop_foldl_merge_record:
  "get_prop (foldl merge_record r0 rs) p
     = foldl (merge_value p) (get_prop r0 p) (map (\<lambda>r. get_prop r p) rs)"
  by (induction rs arbitrary: r0) (simp_all add: get_prop_merge_record)

text \<open>The map the loop builds, against the groups of the records read so far.\<close>

fun merged_group :: "js_record list \<Rightarrow> js_record option" where
  "merged_group [] = None"
| "merged_group (r # rs) = Some (foldl merge_record r rs)"

lemma merged_group_snoc:
  "merged_group (g @ [r]) = (case merged_group g of None \<Rightarrow> Some r | Some ex \<Rightarrow> Some (merge_record ex r))"
  by (cases g) simp_all

definition merge_inv :: "(string \<times> js_record) list \<Rightarrow> js_record list \<Rightarrow> bool" where
  "merge_inv m seen \<longleftrightarrow> distinct (map fst m) \<and> (\<forall>k. map_of m k = merged_group (group_of seen k))"

lemma merge_inv_step_new:
  assumes "merge_inv m seen" and "map_of m (record_key r) = None"
  shows "merge_inv (m @ [(record_key r, r)]) (seen @ [r])"
proof -
  have nk: "record_key r \<notin> fst ` set m" using assms(2) by (simp add: map_of_eq_None_iff)
  have d: "distinct (map fst (m @ [(record_key r, r)]))" using assms(1) nk by (simp add: merge_inv_def)
  have "map_of (m @ [(record_key r, r)]) k = merged_group (group_of (seen @ [r]) k)" for k
  proof (cases "k = record_key r")
    case True
    with assms show ?thesis
      by (simp add: merge_inv_def group_of_def merged_group_snoc map_add_def split: option.splits)
  next
    case False
    with assms(1) show ?thesis
      by (auto simp: merge_inv_def group_of_def map_add_def split: option.splits)
  qed
  with d show ?thesis by (simp add: merge_inv_def)
qed

lemma merge_inv_step_old:
  assumes "merge_inv m seen" and "map_of m (record_key r) = Some ex"
  shows "merge_inv (AList.update (record_key r) (merge_record ex r) m) (seen @ [r])"
proof -
  have d: "distinct (map fst (AList.update (record_key r) (merge_record ex r) m))"
    using assms(1) by (simp add: merge_inv_def distinct_update)
  have "map_of (AList.update (record_key r) (merge_record ex r) m) k
          = merged_group (group_of (seen @ [r]) k)" for k
  proof (cases "k = record_key r")
    case True
    with assms show ?thesis
      by (simp add: merge_inv_def group_of_def merged_group_snoc update_conv' split: option.splits)
  next
    case False
    with assms(1) show ?thesis
      by (simp add: merge_inv_def group_of_def update_conv')
  qed
  with d show ?thesis by (simp add: merge_inv_def)
qed

lemma merge_loop_inv: "merge_inv m seen \<Longrightarrow> merge_inv (merge_loop rs m) (seen @ rs)"
proof (induction rs arbitrary: m seen)
  case Nil
  then show ?case by simp
next
  case (Cons r rs)
  show ?case
  proof (cases "map_of m (record_key r)")
    case None
    from Cons.IH [OF merge_inv_step_new [OF Cons.prems None]] None
    show ?thesis by (simp add: Let_def)
  next
    case (Some ex)
    from Cons.IH [OF merge_inv_step_old [OF Cons.prems Some]] Some
    show ?thesis by (simp add: Let_def)
  qed
qed

lemma merge_loop_result: "merge_inv (merge_loop rows []) rows"
  using merge_loop_inv [of "[]" "[]" rows] by (simp add: merge_inv_def group_of_def)

lemma merged_group_None: "merged_group g = None \<longleftrightarrow> g = []"
  by (cases g) simp_all

lemma merge_loop_keys: "fst ` set (merge_loop rows []) = record_key ` set rows"
proof -
  have i: "\<forall>k. map_of (merge_loop rows []) k = merged_group (group_of rows k)"
    using merge_loop_result [of rows] by (simp add: merge_inv_def)
  have "k \<in> fst ` set (merge_loop rows []) \<longleftrightarrow> k \<in> record_key ` set rows" for k
  proof -
    have "k \<in> fst ` set (merge_loop rows []) \<longleftrightarrow> map_of (merge_loop rows []) k \<noteq> None"
      by (simp add: map_of_eq_None_iff)
    also have "\<dots> \<longleftrightarrow> group_of rows k \<noteq> []" using i by (simp add: merged_group_None)
    also have "\<dots> \<longleftrightarrow> k \<in> record_key ` set rows"
      by (auto simp: group_of_def filter_empty_conv)
    finally show ?thesis .
  qed
  then show ?thesis by blast
qed

text \<open>The value a field ends with.\<close>

lemma foldl_merge_value_keep:
  "\<not> is_blank e \<Longrightarrow> p = ''verified_at'' \<longrightarrow> hasTimestamp e \<or> (\<forall>x \<in> set vs. \<not> hasTimestamp x) \<Longrightarrow>
   foldl (merge_value p) e vs = e"
  by (induction vs) (auto simp: merge_value_def)

lemma foldl_merge_value_first_non_empty:
  "p = ''verified_at'' \<longrightarrow> (\<forall>x \<in> set vs. \<not> hasTimestamp x) \<Longrightarrow>
   first_non_empty (e # vs) = Some v \<Longrightarrow> foldl (merge_value p) e vs = v"
proof (induction vs arbitrary: e)
  case Nil
  then show ?case by (simp add: first_non_empty_def split: if_splits)
next
  case (Cons x xs)
  have tl: "p = ''verified_at'' \<longrightarrow> (\<forall>x \<in> set xs. \<not> hasTimestamp x)" using Cons.prems(1) by simp
  show ?case
  proof (cases "is_blank e")
    case False
    with Cons.prems foldl_merge_value_keep [of e p "x # xs"] show ?thesis
      by (simp add: first_non_empty_def)
  next
    case True
    have "first_non_empty (merge_value p e x # xs) = Some v"
      using True Cons.prems(2) by (auto simp: first_non_empty_def merge_value_def is_blank_def)
    from Cons.IH [OF tl this] show ?thesis by simp
  qed
qed

lemma foldl_merge_value_first_with_timestamp:
  "first_with_timestamp (e # vs) = Some v \<Longrightarrow> foldl (merge_value ''verified_at'') e vs = v"
proof (induction vs arbitrary: e)
  case Nil
  then show ?case by (simp add: first_with_timestamp_def split: if_splits)
next
  case (Cons x xs)
  show ?case
  proof (cases "hasTimestamp e")
    case True
    with Cons.prems foldl_merge_value_keep [of e "''verified_at''" "x # xs"] hasTimestamp_not_blank [of e]
    show ?thesis by (simp add: first_with_timestamp_def)
  next
    case False
    have "first_with_timestamp (merge_value ''verified_at'' e x # xs) = Some v"
      using False Cons.prems hasTimestamp_not_blank [of x]
      by (auto simp: first_with_timestamp_def merge_value_def)
    from Cons.IH [OF this] show ?thesis by simp
  qed
qed


lemma merge_loop_field:
  assumes "(k, merged) \<in> set (merge_loop rows [])"
  shows "\<exists>r rs. group_of rows k = r # rs \<and>
           (\<forall>p. get_prop merged p = foldl (merge_value p) (get_prop r p) (map (\<lambda>r. get_prop r p) rs))"
proof -
  have i: "merge_inv (merge_loop rows []) rows" by (rule merge_loop_result)
  then have "distinct (map fst (merge_loop rows []))" by (simp add: merge_inv_def)
  then have "map_of (merge_loop rows []) k = Some merged"
    using assms by (simp add: map_of_eq_Some_iff)
  with i have g: "merged_group (group_of rows k) = Some merged" by (simp add: merge_inv_def)
  then obtain r rs where grp: "group_of rows k = r # rs" by (cases "group_of rows k") simp_all
  with g have "merged = foldl merge_record r rs" by simp
  then have "\<forall>p. get_prop merged p = foldl (merge_value p) (get_prop r p) (map (\<lambda>r. get_prop r p) rs)"
    by (simp add: get_prop_foldl_merge_record)
  with grp show ?thesis by blast
qed

definition field_values :: "js_record list \<Rightarrow> string \<Rightarrow> string \<Rightarrow> jsval list" where
  "field_values rows k prop = map (\<lambda>r. get_prop r prop) (group_of rows k)"

lemma merged_field_first_non_empty:
  assumes m: "(k, merged) \<in> set (merge_loop rows [])"
    and f: "first_non_empty (field_values rows k fld) = Some v"
    and n: "fld = ''verified_at'' \<longrightarrow> first_with_timestamp (field_values rows k fld) = None"
  shows "get_prop merged fld = v"
proof -
  from merge_loop_field [OF m] obtain r rs where g: "group_of rows k = r # rs"
    and v: "\<forall>p. get_prop merged p = foldl (merge_value p) (get_prop r p) (map (\<lambda>r. get_prop r p) rs)"
    by blast
  from n g have "fld = ''verified_at'' \<longrightarrow>
      (\<forall>x \<in> set (map (\<lambda>r. get_prop r fld) rs). \<not> hasTimestamp x)"
    by (auto simp: field_values_def first_with_timestamp_def find_None_iff split: if_splits)
  moreover from f g have "first_non_empty (get_prop r fld # map (\<lambda>r. get_prop r fld) rs) = Some v"
    by (simp add: field_values_def)
  ultimately have "foldl (merge_value fld) (get_prop r fld) (map (\<lambda>r. get_prop r fld) rs) = v"
    by (rule foldl_merge_value_first_non_empty)
  with v show ?thesis by simp
qed

lemma merged_field_first_with_timestamp:
  assumes m: "(k, merged) \<in> set (merge_loop rows [])"
    and f: "first_with_timestamp (field_values rows k ''verified_at'') = Some v"
  shows "get_prop merged ''verified_at'' = v"
proof -
  from merge_loop_field [OF m] obtain r rs where g: "group_of rows k = r # rs"
    and v: "\<forall>p. get_prop merged p = foldl (merge_value p) (get_prop r p) (map (\<lambda>r. get_prop r p) rs)"
    by blast
  from f g have "first_with_timestamp (get_prop r ''verified_at'' # map (\<lambda>r. get_prop r ''verified_at'') rs) = Some v"
    by (simp add: field_values_def)
  then have "foldl (merge_value ''verified_at'') (get_prop r ''verified_at'')
               (map (\<lambda>r. get_prop r ''verified_at'') rs) = v"
    by (rule foldl_merge_value_first_with_timestamp)
  with v show ?thesis by simp
qed

lemma mergeVerifyRows_length: "length (mergeVerifyRows rows) = card (record_key ` set rows)"
proof -
  have d: "distinct (map fst (merge_loop rows []))"
    using merge_loop_result [of rows] by (simp add: merge_inv_def)
  have "length (mergeVerifyRows rows) = length (map fst (merge_loop rows []))"
    by (simp add: mergeVerifyRows_def)
  also have "\<dots> = card (set (map fst (merge_loop rows [])))"
    using d by (simp only: distinct_card)
  also have "\<dots> = card (record_key ` set rows)" using merge_loop_keys [of rows] by simp
  finally show ?thesis .
qed

text \<open>The composite keys of the records, each once, in the order of their first appearance.\<close>

fun first_occurrences :: "'a list \<Rightarrow> 'a list" where
  "first_occurrences [] = []"
| "first_occurrences (x # xs) = x # filter (\<lambda>y. y \<noteq> x) (first_occurrences xs)"

definition group_keys :: "js_record list \<Rightarrow> string list" where
  "group_keys rows = first_occurrences (map record_key rows)"

lemma set_first_occurrences: "set (first_occurrences xs) = set xs"
  by (induction xs) auto

lemma distinct_first_occurrences: "distinct (first_occurrences xs)"
  by (induction xs) (auto simp: set_first_occurrences)

lemma map_fst_update_present: "k \<in> fst ` set m \<Longrightarrow> map fst (AList.update k v m) = map fst m"
  by (induction m) auto

lemma keys_update_present: "k \<in> fst ` set m \<Longrightarrow> fst ` set (AList.update k v m) = fst ` set m"
  using map_fst_update_present [of k m v] by (metis list.set_map)

lemma merge_loop_order:
  "map fst (merge_loop rs m)
     = map fst m @ filter (\<lambda>k. k \<notin> fst ` set m) (first_occurrences (map record_key rs))"
proof (induction rs arbitrary: m)
  case Nil
  show ?case by simp
next
  case (Cons r rs)
  show ?case
  proof (cases "map_of m (record_key r)")
    case None
    then have nk: "record_key r \<notin> fst ` set m" by (simp add: map_of_eq_None_iff)
    have "filter (\<lambda>k. k \<notin> fst ` set (m @ [(record_key r, r)])) (first_occurrences (map record_key rs))
            = filter (\<lambda>k. k \<notin> fst ` set m) (filter (\<lambda>y. y \<noteq> record_key r) (first_occurrences (map record_key rs)))"
      by (auto intro: filter_cong)
    with Cons.IH [of "m @ [(record_key r, r)]"] None nk show ?thesis by (simp add: Let_def)
  next
    case (Some ex)
    then have "(record_key r, ex) \<in> set m" by (rule map_of_SomeD)
    then have k: "record_key r \<in> fst ` set m" by force
    have "filter (\<lambda>k. k \<notin> fst ` set m) (filter (\<lambda>y. y \<noteq> record_key r) (first_occurrences (map record_key rs)))
            = filter (\<lambda>k. k \<notin> fst ` set m) (first_occurrences (map record_key rs))"
      using k by (auto intro: filter_cong)
    with Cons.IH [of "AList.update (record_key r) (merge_record ex r) m"] Some k show ?thesis
      by (simp add: Let_def map_fst_update_present keys_update_present)
  qed
qed

lemma merge_loop_group_keys: "map fst (merge_loop rows []) = group_keys rows"
  using merge_loop_order [of rows "[]"] by (simp add: group_keys_def)

lemma foldl_merge_value_blank:
  "is_blank e \<Longrightarrow> \<forall>x \<in> set vs. is_blank x \<Longrightarrow> is_blank (foldl (merge_value p) e vs)"
proof (induction vs arbitrary: e)
  case Nil
  then show ?case by simp
next
  case (Cons x xs)
  have "is_blank (merge_value p e x)" using Cons.prems by (auto simp: merge_value_def)
  with Cons.IH [of "merge_value p e x"] Cons.prems(2) show ?case by simp
qed

lemma merged_field_blank:
  assumes m: "(k, merged) \<in> set (merge_loop rows [])"
    and f: "first_non_empty (field_values rows k fld) = None"
  shows "is_blank (get_prop merged fld)"
proof -
  from merge_loop_field [OF m] obtain r rs where g: "group_of rows k = r # rs"
    and v: "\<forall>p. get_prop merged p = foldl (merge_value p) (get_prop r p) (map (\<lambda>r. get_prop r p) rs)"
    by blast
  from f g have "is_blank (get_prop r fld) \<and> (\<forall>x \<in> set (map (\<lambda>r. get_prop r fld) rs). is_blank x)"
    by (auto simp: field_values_def first_non_empty_def find_None_iff split: if_splits)
  then have "is_blank (foldl (merge_value fld) (get_prop r fld) (map (\<lambda>r. get_prop r fld) rs))"
    by (intro foldl_merge_value_blank) auto
  with v show ?thesis by simp
qed

definition merged_as_specified :: "js_record list \<Rightarrow> string \<Rightarrow> js_record \<Rightarrow> bool" where
  "merged_as_specified rows k merged \<longleftrightarrow>
     (\<forall>fld v.
        (fld \<noteq> ''verified_at'' \<and> first_non_empty (field_values rows k fld) = Some v
           \<longrightarrow> get_prop merged fld = v) \<and>
        (first_with_timestamp (field_values rows k ''verified_at'') = Some v
           \<longrightarrow> get_prop merged ''verified_at'' = v) \<and>
        (first_with_timestamp (field_values rows k ''verified_at'') = None \<and>
         first_non_empty (field_values rows k ''verified_at'') = Some v
           \<longrightarrow> get_prop merged ''verified_at'' = v) \<and>
        (first_non_empty (field_values rows k fld) = None \<longrightarrow> is_blank (get_prop merged fld)))"

lemma merge_loop_as_specified:
  assumes "(k, merged) \<in> set (merge_loop rows [])"
  shows "merged_as_specified rows k merged"
  unfolding merged_as_specified_def
proof (intro allI conjI impI)
  fix fld v
  assume "fld \<noteq> ''verified_at'' \<and> first_non_empty (field_values rows k fld) = Some v"
  then show "get_prop merged fld = v"
    using merged_field_first_non_empty [OF assms, of fld v] by simp
next
  fix fld v
  assume "first_with_timestamp (field_values rows k ''verified_at'') = Some v"
  then show "get_prop merged ''verified_at'' = v"
    by (rule merged_field_first_with_timestamp [OF assms])
next
  fix fld v
  assume "first_with_timestamp (field_values rows k ''verified_at'') = None \<and>
       first_non_empty (field_values rows k ''verified_at'') = Some v"
  then show "get_prop merged ''verified_at'' = v"
    using merged_field_first_non_empty [OF assms, of "''verified_at''" v] by simp
next
  fix fld v
  assume "first_non_empty (field_values rows k fld) = None"
  then show "is_blank (get_prop merged fld)" by (rule merged_field_blank [OF assms])
qed

lemma mergeVerifyRows_as_specified:
  "list_all2 (merged_as_specified rows) (group_keys rows) (mergeVerifyRows rows)"
proof -
  have "list_all2 (\<lambda>k merged. (k, merged) \<in> set (merge_loop rows []))
          (map fst (merge_loop rows [])) (map snd (merge_loop rows []))"
    by (simp add: list_all2_conv_all_nth)
  then have "list_all2 (\<lambda>k merged. (k, merged) \<in> set (merge_loop rows []))
          (group_keys rows) (mergeVerifyRows rows)"
    by (simp add: merge_loop_group_keys mergeVerifyRows_def)
  then show ?thesis
    by (rule list_all2_mono) (rule merge_loop_as_specified)
qed


lemma group_keys_distinct: "distinct (group_keys rows)"
  by (simp add: group_keys_def distinct_first_occurrences)

lemma group_keys_set: "set (group_keys rows) = record_key ` set rows"
  by (simp add: group_keys_def set_first_occurrences)

text \<open>
  C4: the merge returns one record for every composite key of the input, in the order in
  which the keys first appear. In the record returned for a key, a field other than
  \<open>verified_at\<close> holds the first value, in input order, among the records of that key
  that is neither undefined, null nor a blank string; \<open>verified_at\<close> holds the value of
  the first record of that key that has a timestamp, and when no record of the key has
  one it follows the rule of the other fields; a field that is undefined, null or blank
  in every record of the key is undefined, null or blank in the record returned.
\<close>

theorem mergeVerifyRows_first_non_empty:
  "distinct (group_keys rows) \<and>
   set (group_keys rows) = record_key ` set rows \<and>
   length (mergeVerifyRows rows) = card (record_key ` set rows) \<and>
   list_all2 (merged_as_specified rows) (group_keys rows) (mergeVerifyRows rows)"
proof (intro conjI)
  show "distinct (group_keys rows)" by (rule group_keys_distinct)
  show "set (group_keys rows) = record_key ` set rows" by (rule group_keys_set)
  show "length (mergeVerifyRows rows) = card (record_key ` set rows)"
    by (rule mergeVerifyRows_length)
  show "list_all2 (merged_as_specified rows) (group_keys rows) (mergeVerifyRows rows)"
    by (rule mergeVerifyRows_as_specified)
qed

definition example_verify_rows :: "js_record list" where
  "example_verify_rows =
    [[(''SO_No'', JString ''a''), (''New_Color'', JNull), (''verified_at'', JNull)],
     [(''SO_No'', JString ''A ''), (''New_Color'', JString '' ''), (''verified_at'', JObject [])],
     [(''SO_No'', JString ''b''), (''New_Color'', JString ''red''), (''verified_at'', JObject [])],
     [(''SO_No'', JString ''A [x]''), (''New_Color'', JString ''blue''), (''verified_at'', JString ''2024-05-01'')],
     [(''SO_No'', JString ''a''), (''New_Color'', JString ''green''), (''verified_at'', JString ''2024-06-01'')]]"

definition example_merged :: "js_record list" where
  "example_merged =
    [[(''SO_No'', JString ''a''), (''New_Color'', JString ''blue''), (''verified_at'', JString ''2024-05-01'')],
     [(''SO_No'', JString ''b''), (''New_Color'', JString ''red''), (''verified_at'', JObject [])]]"

theorem mergeVerifyRows_first_non_empty_witness:
  "mergeVerifyRows example_verify_rows = example_merged \<and>
   group_keys example_verify_rows = [''A|||'', ''B|||''] \<and>
   first_non_empty (field_values example_verify_rows ''A|||'' ''New_Color'') = Some (JString ''blue'') \<and>
   first_with_timestamp (field_values example_verify_rows ''A|||'' ''verified_at'') = Some (JString ''2024-05-01'') \<and>
   get_prop (hd (mergeVerifyRows example_verify_rows)) ''New_Color'' = JString ''blue'' \<and>
   get_prop (hd (mergeVerifyRows example_verify_rows)) ''verified_at'' = JString ''2024-05-01''"
proof -
  have m: "mergeVerifyRows example_verify_rows = example_merged" by code_simp
  have k: "group_keys example_verify_rows = [''A|||'', ''B|||'']" by code_simp
  have f: "''New_Color'' \<noteq> ''verified_at'' \<and>
      first_non_empty (field_values example_verify_rows ''A|||'' ''New_Color'') = Some (JString ''blue'')"
    by code_simp
  have t: "first_with_timestamp (field_values example_verify_rows ''A|||'' ''verified_at'') = Some (JString ''2024-05-01'')"
    by code_simp
  from mergeVerifyRows_first_non_empty [of example_verify_rows]
  have "list_all2 (merged_as_specified example_verify_rows) (group_keys example_verify_rows)
          (mergeVerifyRows example_verify_rows)"
    by (elim conjE)
  then have a: "merged_as_specified example_verify_rows ''A|||'' (hd (mergeVerifyRows example_verify_rows))"
    by (simp add: k m example_merged_def)
  have g1: "get_prop (hd (mergeVerifyRows example_verify_rows)) ''New_Color'' = JString ''blue''"
    by (rule a [unfolded merged_as_specified_def, rule_format, THEN conjunct1, THEN mp, OF f])
  have g2: "get_prop (hd (mergeVerifyRows example_verify_rows)) ''verified_at'' = JString ''2024-05-01''"
    by (rule a [unfolded merged_as_specified_def, rule_format, THEN conjunct2, THEN conjunct1, THEN mp, OF t])
  from m k f t g1 g2 show ?thesis by simp
qed

section \<open>The order query: deduplication and ranking\<close>

text \<open>
  The rows of the \<open>joined\<close> common table expression, with the columns the window and
  the final ordering read. \<open>so_date_parsed_col\<close> is the parsed order date, a day number, or
  NULL; the query casts it to a string in \<open>joined\<close> and back to a date where it
  orders, which gives the same date.
\<close>

record joined_row =
  SO_No_col :: "string option"
  Item_col :: "string option"
  Color_col :: "string option"
  Rating_col :: "string option"
  so_date_parsed_col :: "int option"

definition coalesce :: "string option \<Rightarrow> string" where
  "coalesce s = (case s of None \<Rightarrow> [] | Some x \<Rightarrow> x)"

definition ratingPriorityCase :: "string option \<Rightarrow> nat" where
  "ratingPriorityCase rating =
     (let r = toUpperCase (trim (coalesce rating)) in
      if r = ''HIGH'' then 1
      else if r = ''HIGH - CASH'' then 2
      else if r = ''CASH'' then 3
      else if r = ''CASH - NEW CLIENT'' then 4
      else 5)"

text \<open>\<open>ASC NULLS LAST\<close>: every date comes before NULL.\<close>

definition asc_nulls_last :: "int option \<Rightarrow> nat \<times> int" where
  "asc_nulls_last d = (case d of Some x \<Rightarrow> (0, x) | None \<Rightarrow> (1, 0))"

definition order_key :: "joined_row \<Rightarrow> nat \<times> (nat \<times> int) \<times> string" where
  "order_key r = (ratingPriorityCase (Rating_col r), asc_nulls_last (so_date_parsed_col r), coalesce (SO_No_col r))"

definition partition_key :: "joined_row \<Rightarrow> string \<times> string option \<times> string" where
  "partition_key r = (coalesce (SO_No_col r), map_option (\<lambda>i. toLowerCase (trim i)) (Item_col r), coalesce (Color_col r))"

text \<open>
  \<open>ROW_NUMBER() OVER (PARTITION BY ... ORDER BY ...)\<close> numbers the rows of a partition
  in the order of the key, and \<open>WHERE rn = 1\<close> keeps the first. Rows that tie on the
  whole key may be numbered either way by the engine; the model numbers them in input
  order.
\<close>

definition first_of_partition :: "joined_row list \<Rightarrow> string \<times> string option \<times> string \<Rightarrow> joined_row" where
  "first_of_partition rows pk = hd (sort_key order_key (filter (\<lambda>r. partition_key r = pk) rows))"

definition deduped :: "joined_row list \<Rightarrow> joined_row list" where
  "deduped rows = map (first_of_partition rows) (remdups (map partition_key rows))"

definition query_rows :: "nat \<Rightarrow> nat \<Rightarrow> joined_row list \<Rightarrow> joined_row list" where
  "query_rows limit offset rows = take limit (drop offset (sort_key order_key (deduped rows)))"

text \<open>The ranking in the words of the specification.\<close>

definition earlier_date :: "int option \<Rightarrow> int option \<Rightarrow> bool" where
  "earlier_date a b = (case (a, b) of (Some x, Some y) \<Rightarrow> x < y | (Some x, None) \<Rightarrow> True | (None, _) \<Rightarrow> False)"

definition ranks_before :: "joined_row \<Rightarrow> joined_row \<Rightarrow> bool" where
  "ranks_before a b \<longleftrightarrow>
     ratingPriorityCase (Rating_col a) < ratingPriorityCase (Rating_col b) \<or>
     (ratingPriorityCase (Rating_col a) = ratingPriorityCase (Rating_col b) \<and>
        (earlier_date (so_date_parsed_col a) (so_date_parsed_col b) \<or>
         (so_date_parsed_col a = so_date_parsed_col b \<and> coalesce (SO_No_col a) < coalesce (SO_No_col b))))"

lemma asc_nulls_last_less: "asc_nulls_last a < asc_nulls_last b \<longleftrightarrow> earlier_date a b"
  by (auto simp: asc_nulls_last_def earlier_date_def split: option.splits)

lemma asc_nulls_last_eq: "asc_nulls_last a = asc_nulls_last b \<longleftrightarrow> a = b"
  by (auto simp: asc_nulls_last_def split: option.splits)

lemma ranks_before_iff: "ranks_before a b \<longleftrightarrow> order_key a < order_key b"
  by (auto simp: ranks_before_def order_key_def le_less asc_nulls_last_less asc_nulls_last_eq)

lemma hd_sort_key_least:
  assumes "x \<in> set xs"
  shows "f (hd (sort_key f xs)) \<le> f x"
proof -
  let ?s = "sort_key f xs"
  have ne: "?s \<noteq> []" using assms by (metis empty_iff list.set(1) set_sort)
  then obtain y ys where s: "?s = y # ys" by (cases ?s) auto
  have "sorted (map f ?s)" by (rule sorted_sort_key)
  with s have "\<forall>z \<in> set ys. f y \<le> f z" by simp
  moreover have "x \<in> set ?s" using assms by simp
  ultimately show ?thesis using s by auto
qed

lemma hd_sort_key_mem:
  assumes "xs \<noteq> []"
  shows "hd (sort_key f xs) \<in> set xs"
proof -
  have "set (sort_key f xs) \<noteq> {}" using assms by simp
  then have "sort_key f xs \<noteq> []" by (metis empty_set)
  then have "hd (sort_key f xs) \<in> set (sort_key f xs)" by (rule hd_in_set)
  then show ?thesis by simp
qed

lemma first_of_partition_props:
  assumes "r \<in> set rows"
  shows "first_of_partition rows (partition_key r) \<in> set rows"
    and "partition_key (first_of_partition rows (partition_key r)) = partition_key r"
    and "order_key (first_of_partition rows (partition_key r)) \<le> order_key r"
proof -
  let ?g = "filter (\<lambda>x. partition_key x = partition_key r) rows"
  have m: "r \<in> set ?g" using assms by simp
  then have "?g \<noteq> []" by (metis empty_iff empty_set)
  then have "hd (sort_key order_key ?g) \<in> set ?g" by (rule hd_sort_key_mem)
  then show "first_of_partition rows (partition_key r) \<in> set rows"
    and "partition_key (first_of_partition rows (partition_key r)) = partition_key r"
    by (simp_all add: first_of_partition_def)
  show "order_key (first_of_partition rows (partition_key r)) \<le> order_key r"
    unfolding first_of_partition_def using m by (rule hd_sort_key_least)
qed

lemma deduped_mem:
  "k \<in> set (deduped rows) \<longleftrightarrow> (\<exists>r \<in> set rows. k = first_of_partition rows (partition_key r))"
  by (auto simp: deduped_def)

lemma deduped_partition_keys: "map partition_key (deduped rows) = remdups (map partition_key rows)"
proof -
  have "partition_key (first_of_partition rows pk) = pk" if "pk \<in> set (remdups (map partition_key rows))" for pk
    using that first_of_partition_props(2) [of _ rows] by auto
  then show ?thesis unfolding deduped_def map_map by (intro map_idI) simp
qed

lemma deduped_not_outranked:
  assumes "a \<in> set rows" and "partition_key a = partition_key b" and "ranks_before a b"
  shows "b \<notin> set (deduped rows)"
proof
  assume "b \<in> set (deduped rows)"
  then obtain r where r: "r \<in> set rows" and b: "b = first_of_partition rows (partition_key r)"
    by (auto simp: deduped_mem)
  from first_of_partition_props(2) [OF r] b have "partition_key b = partition_key r" by simp
  with assms(2) b have "b = first_of_partition rows (partition_key a)" by simp
  with first_of_partition_props(3) [OF assms(1)] have "order_key b \<le> order_key a" by simp
  with assms(3) show False by (simp add: ranks_before_iff)
qed

lemma query_rows_sorted: "sorted_wrt (\<lambda>a b. \<not> ranks_before b a) (query_rows limit offset rows)"
proof -
  have "sorted (map order_key (sort_key order_key (deduped rows)))" by (rule sorted_sort_key)
  then have "sorted_wrt (\<lambda>a b. order_key a \<le> order_key b) (sort_key order_key (deduped rows))"
    by (simp add: sorted_map)
  then have "sorted_wrt (\<lambda>a b. order_key a \<le> order_key b) (query_rows limit offset rows)"
    unfolding query_rows_def by (intro sorted_wrt_take sorted_wrt_drop)
  then show ?thesis by (simp add: ranks_before_iff not_less)
qed


lemma deduped_subset: "set (deduped rows) \<subseteq> set rows"
  using first_of_partition_props(1) by (auto simp: deduped_mem)

text \<open>
  C2: the five tiers of the rating priority are as stated; the deduplication keeps one
  row of the input for every group; a row of a group that another row of the same group
  ranks before (smaller priority, then earlier date with NULL last, then smaller order
  number) is not kept; and the rows the query returns are in that same order.
\<close>

theorem dedup_ranking:
  "ratingPriorityCase (Some ''HIGH'') = 1 \<and> ratingPriorityCase (Some ''HIGH - CASH'') = 2 \<and>
   ratingPriorityCase (Some ''CASH'') = 3 \<and> ratingPriorityCase (Some ''CASH - NEW CLIENT'') = 4 \<and>
   (toUpperCase (trim (coalesce rating)) \<notin> {''HIGH'', ''HIGH - CASH'', ''CASH'', ''CASH - NEW CLIENT''}
      \<longrightarrow> ratingPriorityCase rating = 5) \<and>
   map partition_key (deduped rows) = remdups (map partition_key rows) \<and>
   set (deduped rows) \<subseteq> set rows \<and>
   (\<forall>a b. a \<in> set rows \<and> partition_key a = partition_key b \<and> ranks_before a b
      \<longrightarrow> b \<notin> set (deduped rows)) \<and>
   sorted_wrt (\<lambda>a b. \<not> ranks_before b a) (query_rows limit offset rows)"
proof (intro conjI)
  show "ratingPriorityCase (Some ''HIGH'') = 1" by code_simp
  show "ratingPriorityCase (Some ''HIGH - CASH'') = 2" by code_simp
  show "ratingPriorityCase (Some ''CASH'') = 3" by code_simp
  show "ratingPriorityCase (Some ''CASH - NEW CLIENT'') = 4" by code_simp
  show "toUpperCase (trim (coalesce rating)) \<notin> {''HIGH'', ''HIGH - CASH'', ''CASH'', ''CASH - NEW CLIENT''}
      \<longrightarrow> ratingPriorityCase rating = 5"
    by (simp add: ratingPriorityCase_def Let_def)
  show "map partition_key (deduped rows) = remdups (map partition_key rows)"
    by (rule deduped_partition_keys)
  show "set (deduped rows) \<subseteq> set rows" by (rule deduped_subset)
  show "\<forall>a b. a \<in> set rows \<and> partition_key a = partition_key b \<and> ranks_before a b
      \<longrightarrow> b \<notin> set (deduped rows)"
    using deduped_not_outranked by blast
  show "sorted_wrt (\<lambda>a b. \<not> ranks_before b a) (query_rows limit offset rows)"
    by (rule query_rows_sorted)
qed

definition example_high :: joined_row where
  "example_high = \<lparr>SO_No_col = Some ''SO-7'', Item_col = Some ''AB12 '', Color_col = Some ''RED'',
                    Rating_col = Some ''High'', so_date_parsed_col = Some 19800\<rparr>"

definition example_cash :: joined_row where
  "example_cash = \<lparr>SO_No_col = Some ''SO-7'', Item_col = Some ''ab12'', Color_col = Some ''RED'',
                    Rating_col = Some ''CASH'', so_date_parsed_col = Some 19700\<rparr>"

definition example_undated :: joined_row where
  "example_undated = \<lparr>SO_No_col = Some ''SO-3'', Item_col = Some ''ab12'', Color_col = Some ''RED'',
                       Rating_col = Some ''CASH'', so_date_parsed_col = None\<rparr>"

theorem dedup_ranking_witness:
  "example_high \<in> set [example_cash, example_undated, example_high] \<and>
   partition_key example_high = partition_key example_cash \<and>
   ranks_before example_high example_cash \<and>
   example_cash \<notin> set (deduped [example_cash, example_undated, example_high]) \<and>
   query_rows 25 0 [example_cash, example_undated, example_high] = [example_high, example_undated]"
proof -
  have h: "example_high \<in> set [example_cash, example_undated, example_high] \<and>
     partition_key example_high = partition_key example_cash \<and>
     ranks_before example_high example_cash"
    by code_simp
  from dedup_ranking [where rows = "[example_cash, example_undated, example_high]"
      and rating = None and limit = 25 and offset = 0]
  have "\<forall>a b. a \<in> set [example_cash, example_undated, example_high] \<and>
       partition_key a = partition_key b \<and> ranks_before a b
      \<longrightarrow> b \<notin> set (deduped [example_cash, example_undated, example_high])"
    by (elim conjE)
  from this [rule_format, OF h]
  have n: "example_cash \<notin> set (deduped [example_cash, example_undated, example_high])" .
  have q: "query_rows 25 0 [example_cash, example_undated, example_high] = [example_high, example_undated]"
    by code_simp
  from h n q show ?thesis by simp
qed

section \<open>The orders table: data\<close>

subsection \<open>Numbers\<close>

text \<open>
  A JavaScript number is modelled as an integer, one of the two infinities, or NaN.
  Quantities, stock levels, counts and time stamps are integral; the infinities and NaN
  are what the table's comparator and its stock filter produce and test.
\<close>

datatype jsnum = Num int | PosInf | NegInf | NaN

fun js_add :: "jsnum \<Rightarrow> jsnum \<Rightarrow> jsnum" where
  "js_add NaN b = NaN"
| "js_add a NaN = NaN"
| "js_add (Num a) (Num b) = Num (a + b)"
| "js_add (Num a) b = b"
| "js_add a (Num b) = a"
| "js_add PosInf PosInf = PosInf"
| "js_add NegInf NegInf = NegInf"
| "js_add PosInf NegInf = NaN"
| "js_add NegInf PosInf = NaN"

fun js_neg :: "jsnum \<Rightarrow> jsnum" where
  "js_neg (Num a) = Num (- a)"
| "js_neg PosInf = NegInf"
| "js_neg NegInf = PosInf"
| "js_neg NaN = NaN"

definition js_sub :: "jsnum \<Rightarrow> jsnum \<Rightarrow> jsnum" where
  "js_sub a b = js_add a (js_neg b)"

text \<open>\<open>a !== b\<close> on numbers: NaN differs from everything, itself included.\<close>

definition js_strict_neq :: "jsnum \<Rightarrow> jsnum \<Rightarrow> bool" where
  "js_strict_neq a b \<longleftrightarrow> a = NaN \<or> b = NaN \<or> a \<noteq> b"

text \<open>\<open>x || 0\<close>: zero and NaN are falsy.\<close>

definition js_or_zero :: "jsnum \<Rightarrow> jsnum" where
  "js_or_zero x = (if x = NaN \<or> x = Num 0 then Num 0 else x)"

definition js_positive :: "jsnum \<Rightarrow> bool" where
  "js_positive v = (case v of Num n \<Rightarrow> 0 < n | PosInf \<Rightarrow> True | _ \<Rightarrow> False)"

definition js_isFinite :: "jsnum \<Rightarrow> bool" where
  "js_isFinite v = (case v of Num n \<Rightarrow> True | _ \<Rightarrow> False)"

subsection \<open>What the platform provides\<close>

text \<open>
  The built-in functions the table calls and that the model does not define:
  \<open>Date.parse\<close> (\<open>None\<close> is NaN), \<open>new Date(t).toISOString().slice(0, 10)\<close>,
  \<open>Number\<close> on a string, \<open>Date.now()\<close>, and \<open>crypto.randomUUID\<close> (\<open>None\<close> when the
  platform has none; otherwise the identifier drawn for the row at an index).
\<close>

record js_env =
  Date_parse :: "string \<Rightarrow> int option"
  toISODate :: "int \<Rightarrow> string"
  Number_of_string :: "string \<Rightarrow> jsnum"
  Date_now :: int
  randomUUID :: "(nat \<Rightarrow> string) option"

subsection \<open>Rows\<close>

record SalesOrderRow =
  SO_Date :: "string option"
  SO_No :: "string option"
  Customer :: "string option"
  Item :: "string option"
  ItemCode :: "string option"
  Color :: "string option"
  New_Color :: "string option"
  Size :: "string option"
  OrderQty :: "int option"
  Status :: "string option"
  so_date_parsed :: "string option"
  Stock :: "jsnum option"
  StockByColor :: "(string \<times> jsnum) list option"
  ProductionQty :: "int option"
  uid :: "string option"
  pending :: "bool option"

subsection \<open>Helpers\<close>

fun collapse_spaces :: "bool \<Rightarrow> string \<Rightarrow> string" where
  "collapse_spaces in_run [] = []"
| "collapse_spaces in_run (c # cs) =
     (if is_space c
      then (if in_run then collapse_spaces True cs else CHR '' '' # collapse_spaces True cs)
      else c # collapse_spaces False cs)"

definition normItemKey :: "string option \<Rightarrow> string" where
  "normItemKey s =
     (case s of
        None \<Rightarrow> []
      | Some x \<Rightarrow> if x = [] then []
                  else toLowerCase (trim (collapse_spaces False (replace_bracketed x))))"

definition rowKeyFrom :: "SalesOrderRow \<Rightarrow> string" where
  "rowKeyFrom r = toUpperCase (makeDispatchKey (SO_No r) (Customer r) (Item r) (Color r))"

definition or_else :: "'a option \<Rightarrow> 'a option \<Rightarrow> 'a option" where
  "or_else a b = (case a of None \<Rightarrow> b | Some x \<Rightarrow> Some x)"

definition string_or_empty :: "string option \<Rightarrow> string" where
  "string_or_empty s = (case s of None \<Rightarrow> [] | Some x \<Rightarrow> x)"

definition uidForRow :: "js_env \<Rightarrow> string option \<Rightarrow> string option \<Rightarrow> string option \<Rightarrow> nat \<Rightarrow> string" where
  "uidForRow env so item color idx =
     (let base = trim (string_or_empty so) @ ''__'' @ trim (string_or_empty item) @ ''__'' @
                 trim (string_or_empty color);
          base' = (if base = [] then ''uid'' else base)
      in case randomUUID env of
           Some gen \<Rightarrow> base' @ ''__'' @ gen idx
         | None \<Rightarrow> base' @ ''__'' @ nat_digits idx)"

definition is_nullish :: "jsval \<Rightarrow> bool" where
  "is_nullish v \<longleftrightarrow> v = JUndefined \<or> v = JNull"

definition as_string :: "jsval \<Rightarrow> string option" where
  "as_string v = (if is_nullish v then None else Some (js_String v))"

fun js_truthy :: "jsval \<Rightarrow> bool" where
  "js_truthy JUndefined = False"
| "js_truthy JNull = False"
| "js_truthy (JString s) = (s \<noteq> [])"
| "js_truthy (JNumber n) = (n \<noteq> 0)"
| "js_truthy (JBoolean b) = b"
| "js_truthy (JObject kv) = True"

fun verifyHasTimestamp :: "jsval \<Rightarrow> bool" where
  "verifyHasTimestamp JUndefined = False"
| "verifyHasTimestamp JNull = False"
| "verifyHasTimestamp (JString s) = (trim s \<noteq> [])"
| "verifyHasTimestamp (JObject kv) =
     (case get_prop kv ''value'' of
        JString maybeValue \<Rightarrow> trim maybeValue \<noteq> []
      | _ \<Rightarrow> if \<not> is_nullish (get_prop kv ''seconds'') then True else object_keys kv \<noteq> [])"
| "verifyHasTimestamp (JNumber n) = True"
| "verifyHasTimestamp (JBoolean b) = True"

definition normalizeCustomerForCompare :: "string option \<Rightarrow> string" where
  "normalizeCustomerForCompare s = toLowerCase (trim (replace_bracketed (string_or_empty s)))"

definition normalizeItemForCompare :: "string option \<Rightarrow> string" where
  "normalizeItemForCompare s = toLowerCase (trim (string_or_empty s))"

definition normalizeColorForCompare :: "string option \<Rightarrow> string" where
  "normalizeColorForCompare s = toLowerCase (trim (string_or_empty s))"

section \<open>The orders table: one reconciliation cycle\<close>

subsection \<open>Requests\<close>

text \<open>
  What the network does with a request when nothing cancels it, and what the awaiting
  code sees: a request that carries the cycle's signal rejects with an \<open>AbortError\<close> once
  the signal is aborted; a request without the signal is not affected.
\<close>

datatype 'a response = Ok 'a | NotOk | NetworkError

datatype 'a outcome = Settled "'a response" | AbortError

text \<open>
  The five requests of a cycle are numbered in the order they are awaited: dispatched
  keys (1), verification records (2), orders (3), invoice details (4), stock batch (5).
  \<open>abort_at = Some k\<close> says the cycle is superseded while request \<open>k\<close> is awaited.
\<close>

definition with_signal :: "nat option \<Rightarrow> nat \<Rightarrow> 'a response \<Rightarrow> 'a outcome" where
  "with_signal abort_at i r = (case abort_at of Some k \<Rightarrow> if k \<le> i then AbortError else Settled r | None \<Rightarrow> Settled r)"

definition without_signal :: "nat option \<Rightarrow> nat \<Rightarrow> 'a response \<Rightarrow> 'a outcome" where
  "without_signal abort_at i r = Settled r"

record orders_body =
  body_rows :: "SalesOrderRow list"
  body_total :: jsnum

record cycle_input =
  limit :: nat
  customers :: "string list"
  items :: "string list"
  page_in :: nat
  pendingMap_keys :: "string list"
  dispatch_keys_res :: "string list option response"
  verify_res :: "js_record list option response"
  orders_res :: "orders_body response"
  invoice_res :: "js_record list option response"
  stock_res :: "js_record list option response"
  abort_at :: "nat option"

subsection \<open>Dispatched keys and verification records\<close>

definition dispatched_set_of :: "string list option \<Rightarrow> string set" where
  "dispatched_set_of keys =
     set (map (\<lambda>k. toUpperCase (trim k)) (case keys of None \<Rightarrow> [] | Some ks \<Rightarrow> ks))"

definition verify_key :: "js_record \<Rightarrow> string" where
  "verify_key r = toUpperCase (makeDispatchKey (as_string (get_prop r ''SO_No''))
                     (as_string (get_prop r ''Customer'')) (as_string (get_prop r ''Item''))
                     (as_string (get_prop r ''Color'')))"

definition pending_set_of :: "js_record list \<Rightarrow> string set" where
  "pending_set_of vrows =
     set (map verify_key (filter (\<lambda>r. \<not> verifyHasTimestamp (get_prop r ''verified_at'')) vrows))"

text \<open>\<open>verifyMap[key] = r\<close> in a loop: the last record of a key is the one the map holds.\<close>

definition verify_map_of :: "js_record list \<Rightarrow> (string \<times> js_record) list" where
  "verify_map_of vrows = foldl (\<lambda>m r. AList.update (verify_key r) r m) [] vrows"

subsection \<open>Annotating and excluding the rows of the page\<close>

definition newColorFromServer :: "(string \<times> js_record) list \<Rightarrow> string \<Rightarrow> string option" where
  "newColorFromServer verifyMap key =
     (case map_of verifyMap key of
        None \<Rightarrow> None
      | Some verifyRec \<Rightarrow>
          if js_truthy (get_prop verifyRec ''New_Color'')
          then Some (js_String (get_prop verifyRec ''New_Color'')) else None)"

definition with_uid :: "js_env \<Rightarrow> string set \<Rightarrow> (string \<times> js_record) list \<Rightarrow> nat \<Rightarrow> SalesOrderRow \<Rightarrow> SalesOrderRow" where
  "with_uid env localPendingSet verifyMap i r =
     r\<lparr>uid := Some (uidForRow env (SO_No r) (or_else (Item r) (ItemCode r)) (Color r) i),
       pending := Some (rowKeyFrom r \<in> localPendingSet),
       New_Color := or_else (New_Color r) (newColorFromServer verifyMap (rowKeyFrom r)),
       StockByColor := None\<rparr>"

definition exclude_keys :: "string set \<Rightarrow> SalesOrderRow list \<Rightarrow> SalesOrderRow list" where
  "exclude_keys s rs = (if s \<noteq> {} then filter (\<lambda>row. rowKeyFrom row \<notin> s) rs else rs)"

subsection \<open>Invoice history\<close>

definition is_digit :: "char \<Rightarrow> bool" where
  "is_digit c \<longleftrightarrow> (48::nat) \<le> of_char c \<and> of_char c \<le> (57::nat)"

text \<open>\<open>/^(\d{2})[-\/](\d{2})[-\/](\d{4})$/\<close>: the three groups, when the string matches.\<close>

definition dmy_match :: "string \<Rightarrow> (string \<times> string \<times> string) option" where
  "dmy_match s =
     (case s of
        [d1, d2, s1, m1, m2, s2, y1, y2, y3, y4] \<Rightarrow>
          if list_all is_digit [d1, d2, m1, m2, y1, y2, y3, y4] \<and>
             (s1 = CHR ''-'' \<or> s1 = CHR ''/'') \<and> (s2 = CHR ''-'' \<or> s2 = CHR ''/'')
          then Some ([d1, d2], [m1, m2], [y1, y2, y3, y4]) else None
      | _ \<Rightarrow> None)"

definition tryParseIso :: "js_env \<Rightarrow> string \<Rightarrow> string option" where
  "tryParseIso env ds =
     (case Date_parse env ds of
        Some p \<Rightarrow> Some (toISODate env p)
      | None \<Rightarrow>
          (case (case dmy_match ds of
                   Some (d, m, y) \<Rightarrow> map_option (toISODate env) (Date_parse env (y @ ''-'' @ m @ ''-'' @ d))
                 | None \<Rightarrow> None) of
             Some isoDate \<Rightarrow> Some isoDate
           | None \<Rightarrow>
               map_option (toISODate env)
                 (Date_parse env (map (\<lambda>c. if c = CHR ''.'' then CHR ''-'' else c) ds))))"

definition tryParseToIso :: "js_env \<Rightarrow> string option \<Rightarrow> string option" where
  "tryParseToIso env ds =
     (case ds of
        None \<Rightarrow> None
      | Some d \<Rightarrow> if d = [] then None
                  else if trim d = [] then None
                  else tryParseIso env (trim d))"

definition coalesce2 :: "jsval \<Rightarrow> jsval \<Rightarrow> jsval" where
  "coalesce2 a b = (if is_nullish a then b else a)"

text \<open>The date fields of an invoice row are strings or absent, as the source casts them.\<close>

definition date_candidate :: "js_record \<Rightarrow> string option" where
  "date_candidate invRow =
     (case coalesce2 (get_prop invRow ''parsed_date'') (coalesce2 (get_prop invRow ''parsed_date_iso'')
             (coalesce2 (get_prop invRow ''Date'') (get_prop invRow ''date''))) of
        JString s \<Rightarrow> if s = [] then None else Some s
      | _ \<Rightarrow> None)"

definition invoice_step :: "js_env \<Rightarrow> (string \<times> string) list \<Rightarrow> js_record \<Rightarrow> (string \<times> string) list" where
  "invoice_step env invMapRaw invRow =
     (let custName = js_String (coalesce2 (get_prop invRow ''Customer_Name'') (coalesce2 (get_prop invRow ''Customer'') (JString [])));
          itemCode = js_String (coalesce2 (get_prop invRow ''Item_Code'') (coalesce2 (get_prop invRow ''Item'') (JString [])));
          color = js_String (coalesce2 (get_prop invRow ''Item_Color'') (coalesce2 (get_prop invRow ''Color'') (JString [])));
          cNorm = normalizeCustomerForCompare (Some custName);
          iNorm = normalizeItemForCompare (Some itemCode);
          colNorm = normalizeColorForCompare (Some color)
      in if cNorm = [] \<or> iNorm = [] then invMapRaw
         else case date_candidate invRow of
                None \<Rightarrow> invMapRaw
              | Some ds \<Rightarrow>
                  (case tryParseIso env ds of
                     None \<Rightarrow> invMapRaw
                   | Some isoDate \<Rightarrow>
                       if isoDate = [] then invMapRaw
                       else let key = cNorm @ ''|'' @ iNorm @ ''|'' @ colNorm in
                            (case map_of invMapRaw key of
                               None \<Rightarrow> AList.update key isoDate invMapRaw
                             | Some prev \<Rightarrow>
                                 if prev = [] \<or> prev < isoDate then AList.update key isoDate invMapRaw
                                 else invMapRaw)))"

definition final_inv_map :: "js_env \<Rightarrow> js_record list \<Rightarrow> (string \<times> (string \<times> int)) list" where
  "final_inv_map env invRows =
     List.map_filter
       (\<lambda>(k, isoDate). case Date_parse env isoDate of
                      None \<Rightarrow> None
                    | Some t \<Rightarrow> Some (k, (isoDate, (Date_now env - t) div (1000 * 60 * 60 * 24))))
       (foldl (invoice_step env) [] invRows)"

definition invoice_keeps :: "js_env \<Rightarrow> (string \<times> (string \<times> int)) list \<Rightarrow> SalesOrderRow \<Rightarrow> bool" where
  "invoice_keeps env finalInvMap r =
     (let invKey = normalizeCustomerForCompare (Some (string_or_empty (Customer r))) @ ''|'' @
                   normalizeItemForCompare (Some (string_or_empty (or_else (Item r) (ItemCode r)))) @ ''|'' @
                   normalizeColorForCompare (Some (string_or_empty (Color r)))
      in case map_of finalInvMap invKey of
           None \<Rightarrow> True
         | Some (dateIso, daysAgo) \<Rightarrow>
             (case tryParseToIso env (Some (string_or_empty (or_else (SO_Date r) (so_date_parsed r)))) of
                None \<Rightarrow> True
              | Some soIso \<Rightarrow> dateIso \<le> soIso))"

subsection \<open>Stock\<close>

definition stock_keys :: "SalesOrderRow list \<Rightarrow> string list" where
  "stock_keys rs = remdups (filter (\<lambda>k. k \<noteq> []) (map (\<lambda>r. normItemKey (or_else (Item r) (ItemCode r))) rs))"

text \<open>
  \<open>typeof s.Closing_Stock === "number" ? s.Closing_Stock : Number(s.Closing_Stock ?? NaN)\<close>.
\<close>

definition closing_stock :: "js_env \<Rightarrow> jsval \<Rightarrow> jsnum" where
  "closing_stock env v =
     (case v of
        JNumber n \<Rightarrow> Num n
      | JUndefined \<Rightarrow> NaN
      | JNull \<Rightarrow> NaN
      | JString s \<Rightarrow> Number_of_string env s
      | JBoolean b \<Rightarrow> Num (if b then 1 else 0)
      | JObject kv \<Rightarrow> NaN)"

definition lookup_num :: "(string \<times> jsnum) list \<Rightarrow> string \<Rightarrow> jsnum" where
  "lookup_num m k = (case map_of m k of None \<Rightarrow> Num 0 | Some x \<Rightarrow> js_or_zero x)"

definition stock_item :: "js_record \<Rightarrow> string" where
  "stock_item s = toLowerCase (trim (js_String (coalesce2 (get_prop s ''normalized_item'')
                     (coalesce2 (get_prop s ''Item'') (JString [])))))"

definition stock_step ::
  "js_env \<Rightarrow> (string \<times> jsnum) list \<times> (string \<times> (string \<times> jsnum) list) list \<Rightarrow> js_record \<Rightarrow>
   (string \<times> jsnum) list \<times> (string \<times> (string \<times> jsnum) list) list" where
  "stock_step env maps s =
     (let totalStockMap = fst maps; colorStockMap = snd maps;
          norm = stock_item s;
          color = trim (js_String (coalesce2 (get_prop s ''Color'') (JString [])));
          cs = closing_stock env (get_prop s ''Closing_Stock'')
      in if norm = [] then maps
         else if cs = NaN then maps
         else let byColor = (case map_of colorStockMap norm of None \<Rightarrow> [] | Some m \<Rightarrow> m) in
              (AList.update norm (js_add (lookup_num totalStockMap norm) cs) totalStockMap,
               AList.update norm (AList.update color (js_add (lookup_num byColor color) cs) byColor)
                 colorStockMap))"

definition stock_maps ::
  "js_env \<Rightarrow> js_record list \<Rightarrow> (string \<times> jsnum) list \<times> (string \<times> (string \<times> jsnum) list) list" where
  "stock_maps env stockRows = foldl (stock_step env) ([], []) stockRows"

definition annotate_stock ::
  "(string \<times> jsnum) list \<times> (string \<times> (string \<times> jsnum) list) list \<Rightarrow> SalesOrderRow \<Rightarrow> SalesOrderRow" where
  "annotate_stock maps row =
     (let key = normItemKey (or_else (Item row) (ItemCode row)) in
      row\<lparr>Stock := (if key \<noteq> [] then map_of (fst maps) key else None),
          StockByColor := (if key \<noteq> [] then map_of (snd maps) key else None)\<rparr>)"

subsection \<open>Sorting\<close>

definition qty_of :: "SalesOrderRow \<Rightarrow> jsnum" where
  "qty_of a = Num (case OrderQty a of None \<Rightarrow> 0 | Some q \<Rightarrow> q)"

definition stock_of :: "SalesOrderRow \<Rightarrow> jsnum" where
  "stock_of a = (case Stock a of Some s \<Rightarrow> if s \<noteq> NaN then s else NegInf | None \<Rightarrow> NegInf)"

definition date_of :: "js_env \<Rightarrow> SalesOrderRow \<Rightarrow> jsnum" where
  "date_of env a =
     (case so_date_parsed a of
        None \<Rightarrow> PosInf
      | Some s \<Rightarrow> if s = [] then PosInf
                  else (case Date_parse env s of None \<Rightarrow> NaN | Some t \<Rightarrow> Num t))"

definition compare_rows :: "js_env \<Rightarrow> SalesOrderRow \<Rightarrow> SalesOrderRow \<Rightarrow> jsnum" where
  "compare_rows env a b =
     (if js_strict_neq (qty_of b) (qty_of a) then js_sub (qty_of b) (qty_of a)
      else if js_strict_neq (stock_of b) (stock_of a) then js_sub (stock_of b) (stock_of a)
      else js_sub (date_of env a) (date_of env b))"

text \<open>
  \<open>Array.prototype.sort\<close> with a comparator is a stable sort; a comparator result that
  is NaN counts as zero. It is modelled as an insertion sort that moves an element past
  those that the comparator puts strictly before it.
\<close>

fun insert_sorted :: "('a \<Rightarrow> 'a \<Rightarrow> jsnum) \<Rightarrow> 'a \<Rightarrow> 'a list \<Rightarrow> 'a list" where
  "insert_sorted cmp x [] = [x]"
| "insert_sorted cmp x (y # ys) =
     (if js_positive (cmp x y) then y # insert_sorted cmp x ys else x # y # ys)"

definition js_sort :: "('a \<Rightarrow> 'a \<Rightarrow> jsnum) \<Rightarrow> 'a list \<Rightarrow> 'a list" where
  "js_sort cmp xs = foldr (insert_sorted cmp) xs []"

subsection \<open>The last filters and the total\<close>

definition stock_keeps :: "SalesOrderRow \<Rightarrow> bool" where
  "stock_keeps r =
     (case Stock r of
        None \<Rightarrow> True
      | Some s \<Rightarrow> if s = Num 0 then False else if s = NaN then False else True)"

definition selection_keeps :: "string list \<Rightarrow> string list \<Rightarrow> SalesOrderRow \<Rightarrow> bool" where
  "selection_keeps cs its r =
     (let selectedCustomersSet = set (map (\<lambda>c. normalizeCustomerForCompare (Some c)) cs);
          selectedItemsSet = set (map (\<lambda>i. normalizeItemForCompare (Some i)) its)
      in if selectedCustomersSet \<noteq> {} \<and> normalizeCustomerForCompare (Customer r) \<notin> selectedCustomersSet
         then False
         else if selectedItemsSet \<noteq> {} \<and> normalizeItemForCompare (Item r) \<notin> selectedItemsSet
         then False
         else True)"

definition computedTotal :: "jsnum \<Rightarrow> nat \<Rightarrow> nat \<Rightarrow> int" where
  "computedTotal serverTotal n_incoming n_final =
     (let removedCount = max 0 (int n_incoming - int n_final) in
      case serverTotal of
        Num t \<Rightarrow> max 0 (t - removedCount)
      | _ \<Rightarrow> int n_final)"

subsection \<open>The cycle\<close>

text \<open>The calls a cycle makes, in order: the state setters, and the console.\<close>

datatype setter =
    SetLoading bool
  | SetDispatchedSet "string set"
  | SetPendingSet "string set"
  | SelectColor string string
  | SetRows "SalesOrderRow list"
  | SetTotal int
  | SetPage nat
  | SetInvoiceMap "(string \<times> (string \<times> int)) list"
  | ClearCollapsedGroups
  | ClearChecked
  | ConsoleError
  | ConsoleWarn

definition rows_after_exclusions ::
  "js_env \<Rightarrow> string set \<Rightarrow> string set \<Rightarrow> (string \<times> js_record) list \<Rightarrow> string list \<Rightarrow>
   SalesOrderRow list \<Rightarrow> SalesOrderRow list" where
  "rows_after_exclusions env localDispatchedSet localPendingSet verifyMap pendingKeys incoming =
     exclude_keys (set (map toUpperCase pendingKeys))
       (exclude_keys localPendingSet
          (exclude_keys localDispatchedSet
             (map (\<lambda>(i, r). with_uid env localPendingSet verifyMap i r) (enumerate 0 incoming))))"

definition select_color_calls :: "(string \<times> js_record) list \<Rightarrow> SalesOrderRow list \<Rightarrow> setter list" where
  "select_color_calls verifyMap incoming =
     List.map_filter (\<lambda>r. map_option (SelectColor (rowKeyFrom r)) (newColorFromServer verifyMap (rowKeyFrom r)))
       incoming"

definition final_rows :: "js_env \<Rightarrow> string list \<Rightarrow> string list \<Rightarrow> SalesOrderRow list \<Rightarrow> SalesOrderRow list" where
  "final_rows env cs its rowsWithUid =
     filter (selection_keeps cs its) (filter stock_keeps (js_sort (compare_rows env) rowsWithUid))"

text \<open>The part of the cycle after the invoice filter: stock, sort, filters, setters.\<close>

definition finish_cycle ::
  "js_env \<Rightarrow> cycle_input \<Rightarrow> jsnum \<Rightarrow> nat \<Rightarrow> SalesOrderRow list \<Rightarrow> setter list" where
  "finish_cycle env inp serverTotal n_incoming rowsWithUid =
     (let keys = stock_keys rowsWithUid;
          (annotated, log) =
            (if keys \<noteq> []
             then (case without_signal (abort_at inp) 5 (stock_res inp) of
                     Settled (Ok body) \<Rightarrow>
                       (map (annotate_stock (stock_maps env (case body of None \<Rightarrow> [] | Some rs \<Rightarrow> rs)))
                          rowsWithUid, [])
                   | Settled NotOk \<Rightarrow> (rowsWithUid, [ConsoleWarn])
                   | Settled NetworkError \<Rightarrow> (rowsWithUid, [ConsoleError])
                   | AbortError \<Rightarrow> (rowsWithUid, [ConsoleError]))
             else (rowsWithUid, []));
          finalRows = final_rows env (customers inp) (items inp) annotated
      in log @ [SetRows finalRows,
                SetTotal (computedTotal serverTotal n_incoming (length finalRows)),
                ClearCollapsedGroups, ClearChecked, SetLoading False])"

definition after_orders ::
  "js_env \<Rightarrow> cycle_input \<Rightarrow> string set \<Rightarrow> string set \<Rightarrow> (string \<times> js_record) list \<Rightarrow>
   orders_body \<Rightarrow> setter list" where
  "after_orders env inp localDispatchedSet localPendingSet verifyMap data =
     (let incoming = body_rows data;
          serverTotal = (if js_isFinite (body_total data) then body_total data
                         else Num (int (length incoming)))
      in if incoming = [] \<and> js_positive serverTotal \<and> 0 < page_in inp
         then [SetPage 0, SetLoading False, SetLoading False]
         else
           let rowsWithUid = rows_after_exclusions env localDispatchedSet localPendingSet verifyMap
                               (pendingMap_keys inp) incoming;
               (finalInvMap, log) =
                 (case with_signal (abort_at inp) 4 (invoice_res inp) of
                    Settled (Ok body) \<Rightarrow> (final_inv_map env (case body of None \<Rightarrow> [] | Some rs \<Rightarrow> rs), [])
                  | Settled NotOk \<Rightarrow> ([], [])
                  | Settled NetworkError \<Rightarrow> ([], [ConsoleWarn])
                  | AbortError \<Rightarrow> ([], []));
               kept = filter (invoice_keeps env finalInvMap) rowsWithUid
           in select_color_calls verifyMap incoming @ log @ [SetInvoiceMap finalInvMap] @
              finish_cycle env inp serverTotal (length incoming) kept)"

definition after_verify ::
  "js_env \<Rightarrow> cycle_input \<Rightarrow> string set \<Rightarrow> string set \<Rightarrow> (string \<times> js_record) list \<Rightarrow> setter list" where
  "after_verify env inp localDispatchedSet localPendingSet verifyMap =
     SetPendingSet localPendingSet #
     (case with_signal (abort_at inp) 3 (orders_res inp) of
        Settled (Ok data) \<Rightarrow> after_orders env inp localDispatchedSet localPendingSet verifyMap data
      | Settled NotOk \<Rightarrow> [ConsoleError, SetRows [], SetTotal 0, SetLoading False, SetLoading False]
      | Settled NetworkError \<Rightarrow> [ConsoleError, SetLoading False]
      | AbortError \<Rightarrow> [SetLoading False])"

definition after_dispatch_keys :: "js_env \<Rightarrow> cycle_input \<Rightarrow> string set \<Rightarrow> setter list" where
  "after_dispatch_keys env inp localDispatchedSet =
     SetDispatchedSet localDispatchedSet #
     (case with_signal (abort_at inp) 2 (verify_res inp) of
        Settled (Ok body) \<Rightarrow>
          (let vrows = (case body of None \<Rightarrow> [] | Some rs \<Rightarrow> rs) in
           after_verify env inp localDispatchedSet (pending_set_of vrows) (verify_map_of vrows))
      | Settled NotOk \<Rightarrow> after_verify env inp localDispatchedSet {} []
      | Settled NetworkError \<Rightarrow> after_verify env inp localDispatchedSet {} []
      | AbortError \<Rightarrow> [SetLoading False])"

definition load :: "js_env \<Rightarrow> cycle_input \<Rightarrow> setter list" where
  "load env inp =
     SetLoading True #
     (case with_signal (abort_at inp) 1 (dispatch_keys_res inp) of
        Settled (Ok keys) \<Rightarrow> after_dispatch_keys env inp (dispatched_set_of keys)
      | Settled NotOk \<Rightarrow> after_dispatch_keys env inp {}
      | Settled NetworkError \<Rightarrow> after_dispatch_keys env inp {}
      | AbortError \<Rightarrow> [SetLoading False])"

section \<open>The orders table: state and actions\<close>

record table_state =
  rows :: "SalesOrderRow list"
  total :: int
  page :: nat
  loading :: bool
  invoiceMap :: "(string \<times> (string \<times> int)) list"
  dispatchedSet :: "string set"
  pendingSet :: "string set"
  pendingMap :: "(string \<times> SalesOrderRow) list"
  selectedColors :: "(string \<times> string) list"
  productionQtyByUid :: "(string \<times> int option) list"
  checked :: "(string \<times> bool) list"
  collapsedGroups :: "(string \<times> bool) list"
  saving :: bool
  verifying :: bool
  console_errors :: nat

definition initial_state :: table_state where
  "initial_state =
     \<lparr>rows = [], total = 0, page = 0, loading = False, invoiceMap = [], dispatchedSet = {},
      pendingSet = {}, pendingMap = [], selectedColors = [], productionQtyByUid = [],
      checked = [], collapsedGroups = [], saving = False, verifying = False, console_errors = 0\<rparr>"

fun apply_setter :: "table_state \<Rightarrow> setter \<Rightarrow> table_state" where
  "apply_setter st (SetLoading b) = st\<lparr>loading := b\<rparr>"
| "apply_setter st (SetDispatchedSet s) = st\<lparr>dispatchedSet := s\<rparr>"
| "apply_setter st (SetPendingSet s) = st\<lparr>pendingSet := s\<rparr>"
| "apply_setter st (SelectColor key color) =
     (if map_of (selectedColors st) key = Some color then st
      else st\<lparr>selectedColors := AList.update key color (selectedColors st)\<rparr>)"
| "apply_setter st (SetRows rs) = st\<lparr>rows := rs\<rparr>"
| "apply_setter st (SetTotal t) = st\<lparr>total := t\<rparr>"
| "apply_setter st (SetPage p) = st\<lparr>page := p\<rparr>"
| "apply_setter st (SetInvoiceMap m) = st\<lparr>invoiceMap := m\<rparr>"
| "apply_setter st ClearCollapsedGroups = st\<lparr>collapsedGroups := []\<rparr>"
| "apply_setter st ClearChecked = st\<lparr>checked := []\<rparr>"
| "apply_setter st ConsoleError = st\<lparr>console_errors := Suc (console_errors st)\<rparr>"
| "apply_setter st ConsoleWarn = st"

text \<open>
  A cycle reads the page and the keys of the pending map from the state it starts in (the
  effect runs again when either changes) and leaves the state its calls produce.
\<close>

definition run_cycle :: "js_env \<Rightarrow> cycle_input \<Rightarrow> table_state \<Rightarrow> table_state" where
  "run_cycle env inp st =
     foldl apply_setter st
       (load env (inp\<lparr>page_in := page st, pendingMap_keys := map fst (pendingMap st)\<rparr>))"

subsection \<open>The fetch of the hook\<close>

text \<open>
  The \<open>useSalesOrders\<close> hook owns the rows, the page, the total and the invoice map, and
  has a fetch effect of its own: it asks the order boundary for the page and stores the
  rows and the total it reports, as they come. Its single request carries a signal;
  \<open>superseded\<close> says the effect is cleaned up while the request is awaited.
\<close>

definition useSalesOrders_load :: "bool \<Rightarrow> orders_body response \<Rightarrow> setter list" where
  "useSalesOrders_load superseded res =
     SetLoading True #
     (case with_signal (if superseded then Some 1 else None) 1 res of
        Settled (Ok data) \<Rightarrow>
          (let incoming = body_rows data;
               serverTotal = (case body_total data of Num t \<Rightarrow> t | _ \<Rightarrow> int (length incoming))
           in [SetRows incoming, SetTotal serverTotal, SetInvoiceMap [], SetLoading False])
      | Settled NotOk \<Rightarrow> [SetRows [], SetTotal 0, SetLoading False, SetLoading False]
      | Settled NetworkError \<Rightarrow> [ConsoleError, SetLoading False]
      | AbortError \<Rightarrow> [ConsoleError, SetLoading False])"

definition run_fetch :: "bool \<Rightarrow> orders_body response \<Rightarrow> table_state \<Rightarrow> table_state" where
  "run_fetch superseded res st = foldl apply_setter st (useSalesOrders_load superseded res)"

subsection \<open>A confirmation from another tab\<close>

definition string_of :: "jsval \<Rightarrow> string" where
  "string_of v = js_String (coalesce2 v (JString []))"

definition js_Number :: "js_env \<Rightarrow> jsval \<Rightarrow> jsnum" where
  "js_Number env v =
     (case v of
        JNumber n \<Rightarrow> Num n
      | JUndefined \<Rightarrow> NaN
      | JNull \<Rightarrow> Num 0
      | JString s \<Rightarrow> Number_of_string env s
      | JBoolean b \<Rightarrow> Num (if b then 1 else 0)
      | JObject kv \<Rightarrow> NaN)"

definition incoming_key :: "js_record \<Rightarrow> string" where
  "incoming_key incoming =
     toUpperCase (makeDispatchKey (Some (string_of (get_prop incoming ''SO_No'')))
        (Some (string_of (get_prop incoming ''Customer''))) (Some (string_of (get_prop incoming ''Item'')))
        (Some (string_of (get_prop incoming ''Color''))))"

definition confirmed_row :: "js_env \<Rightarrow> js_record \<Rightarrow> SalesOrderRow" where
  "confirmed_row env incoming =
     (let field = (\<lambda>name. if js_truthy (get_prop incoming name) then js_String (get_prop incoming name)
                          else string_of (get_prop incoming name));
          opt = (\<lambda>name. if is_nullish (get_prop incoming name) then None
                        else Some (js_String (get_prop incoming name)))
      in \<lparr>SO_Date = opt ''SO_Date'',
          SO_No = Some (field ''SO_No''),
          Customer = Some (field ''Customer''),
          Item = Some (field ''Item''),
          ItemCode = None,
          Color = Some (field ''Color''),
          New_Color = opt ''New_Color'',
          Size = opt ''Size'',
          OrderQty = (if is_nullish (get_prop incoming ''OrderQty'') then None
                      else (case js_Number env (get_prop incoming ''OrderQty'') of
                              Num n \<Rightarrow> Some n | _ \<Rightarrow> None)),
          Status = None,
          so_date_parsed = None,
          Stock = None,
          StockByColor = None,
          ProductionQty = None,
          uid = None,
          pending = None\<rparr>)"

text \<open>
  The message handler of the \<open>sales-orders\<close> channel (the window-event fallback does the
  same with the event's detail as the row). \<open>msg_type\<close> and \<open>msg_row\<close> are the two
  fields of the message; \<open>idx\<close> is the time the row identifier falls back on.
\<close>

definition on_verified_confirmed ::
  "js_env \<Rightarrow> nat \<Rightarrow> string option \<Rightarrow> js_record option \<Rightarrow> table_state \<Rightarrow> table_state" where
  "on_verified_confirmed env idx msg_type msg_row st =
     (case msg_row of
        None \<Rightarrow> st
      | Some incoming \<Rightarrow>
          if msg_type \<noteq> Some ''verified:confirmed'' then st
          else
            let key = incoming_key incoming;
                newRow = confirmed_row env incoming;
                exists = list_ex (\<lambda>r. rowKeyFrom r = key) (rows st);
                withUid = newRow\<lparr>uid := Some (uidForRow env (SO_No newRow)
                                 (or_else (Item newRow) (ItemCode newRow)) (Color newRow) idx)\<rparr>;
                st1 = st\<lparr>pendingSet := pendingSet st - {key},
                         pendingMap := AList.delete key (pendingMap st),
                         rows := (if exists then rows st else withUid # rows st)\<rparr>
            in if js_truthy (get_prop incoming ''New_Color'')
               then st1\<lparr>selectedColors := AList.update key (js_String (get_prop incoming ''New_Color''))
                                             (selectedColors st1)\<rparr>
               else st1)"

subsection \<open>Request verification\<close>

record OutgoingRow =
  out_SO_No :: string
  out_Customer :: "string option"
  out_Item :: "string option"
  out_Color :: "string option"
  out_New_Color :: "string option"
  out_Size :: "string option"
  out_OrderQty :: "int option"
  out_SO_Date :: "string option"

definition is_checked :: "(string \<times> bool) list \<Rightarrow> string \<Rightarrow> bool" where
  "is_checked c u = (map_of c u = Some True)"

definition has_selected_color :: "(string \<times> string) list \<Rightarrow> string \<Rightarrow> bool" where
  "has_selected_color sc key = (case map_of sc key of None \<Rightarrow> False | Some c \<Rightarrow> c \<noteq> [])"

definition outgoing_of :: "table_state \<Rightarrow> SalesOrderRow \<Rightarrow> OutgoingRow option" where
  "outgoing_of st r =
     (let u = string_or_empty (uid r); key = rowKeyFrom r in
      if \<not> is_checked (checked st) u \<and> \<not> has_selected_color (selectedColors st) key then None
      else Some \<lparr>out_SO_No = string_or_empty (SO_No r),
                 out_Customer = Customer r,
                 out_Item = Item r,
                 out_Color = Color r,
                 out_New_Color = or_else (map_of (selectedColors st) key) (New_Color r),
                 out_Size = Size r,
                 out_OrderQty = OrderQty r,
                 out_SO_Date = SO_Date r\<rparr>)"

definition rowsToSend :: "table_state \<Rightarrow> OutgoingRow list" where
  "rowsToSend st = List.map_filter (outgoing_of st) (rows st)"

definition outgoing_key :: "OutgoingRow \<Rightarrow> string" where
  "outgoing_key sr = toUpperCase (makeDispatchKey (Some (out_SO_No sr)) (out_Customer sr) (out_Item sr) (out_Color sr))"

definition add_pending :: "SalesOrderRow list \<Rightarrow> (string \<times> SalesOrderRow) list \<Rightarrow> string \<Rightarrow> (string \<times> SalesOrderRow) list" where
  "add_pending rs pm key =
     (case find (\<lambda>r. rowKeyFrom r = key) rs of
        None \<Rightarrow> pm
      | Some original \<Rightarrow> AList.update key original pm)"

text \<open>
  \<open>handleVerifySelected\<close>, given what the request to the verification boundary does. The
  callback reads \<open>rows\<close>, \<open>checked\<close> and \<open>selectedColors\<close> from the render it was created
  in: \<open>cl\<close> is that state, the one the operator clicked in. The request is awaited, and
  the setters that follow it are functional: they apply to \<open>st\<close>, the state when the
  response arrives.
\<close>

definition handleVerifySelected :: "unit response \<Rightarrow> table_state \<Rightarrow> table_state \<Rightarrow> table_state" where
  "handleVerifySelected res cl st =
     (let toSend = rowsToSend cl in
      if toSend = [] then st
      else
        let st1 = st\<lparr>verifying := True\<rparr>;
            st2 =
              (case res of
                 NotOk \<Rightarrow> st1\<lparr>console_errors := Suc (console_errors st1)\<rparr>
               | NetworkError \<Rightarrow> st1\<lparr>console_errors := Suc (console_errors st1)\<rparr>
               | Ok u \<Rightarrow>
                   let keysToAdd = map outgoing_key toSend in
                   st1\<lparr>pendingMap := foldl (add_pending (rows cl)) (pendingMap st1) keysToAdd,
                       pendingSet := pendingSet st1 \<union> set keysToAdd,
                       rows := filter (\<lambda>r. rowKeyFrom r \<notin> set keysToAdd) (rows st1),
                       selectedColors := foldl (\<lambda>m k. AList.delete k m) (selectedColors st1) keysToAdd,
                       checked := [],
                       total := max 0 (total st1 - int (length toSend))\<rparr>)
        in st2\<lparr>verifying := False\<rparr>)"

subsection \<open>Save dispatched\<close>

record DispatchRow =
  d_SO_No :: string
  d_Customer :: "string option"
  d_Item :: "string option"
  d_Old_Color :: "string option"
  d_New_Color :: "string option"
  d_Color :: "string option"
  d_ProductionQty :: "int option"

definition selected_uid :: "table_state \<Rightarrow> SalesOrderRow \<Rightarrow> bool" where
  "selected_uid st r = (case uid r of None \<Rightarrow> False | Some u \<Rightarrow> u \<noteq> [] \<and> is_checked (checked st) u)"

definition dispatch_of :: "table_state \<Rightarrow> SalesOrderRow \<Rightarrow> DispatchRow" where
  "dispatch_of st r =
     (let selectedNew = or_else (map_of (selectedColors st) (rowKeyFrom r)) (New_Color r);
          u = string_or_empty (uid r)
      in \<lparr>d_SO_No = string_or_empty (SO_No r),
          d_Customer = Customer r,
          d_Item = Item r,
          d_Old_Color = Color r,
          d_New_Color = selectedNew,
          d_Color = or_else selectedNew (Color r),
          d_ProductionQty = (case map_of (productionQtyByUid st) u of
                               Some (Some q) \<Rightarrow> Some q
                             | _ \<Rightarrow> ProductionQty r)\<rparr>)"

definition dispatch_key :: "DispatchRow \<Rightarrow> string option \<Rightarrow> string" where
  "dispatch_key sr color = toUpperCase (makeDispatchKey (Some (d_SO_No sr)) (d_Customer sr) (d_Item sr) color)"

text \<open>
  \<open>handleSaveDispatched\<close>, with \<open>cl\<close> and \<open>st\<close> as above. After the awaited request the
  rows are not set functionally: \<open>setRows(remaining)\<close> writes the rows of the render the
  operator clicked in, less the rows submitted, whatever the rows are by then.
\<close>

definition handleSaveDispatched :: "unit response \<Rightarrow> table_state \<Rightarrow> table_state \<Rightarrow> table_state" where
  "handleSaveDispatched res cl st =
     (let selectedUids = map fst (filter snd (checked cl)) in
      if selectedUids = [] then st
      else
        let selectedRows = map (dispatch_of cl) (filter (selected_uid cl) (rows cl)) in
        if selectedRows = [] then st
        else
          let st1 = st\<lparr>saving := True\<rparr>;
              st2 =
                (case res of
                   NotOk \<Rightarrow> st1\<lparr>console_errors := Suc (console_errors st1)\<rparr>
                 | NetworkError \<Rightarrow> st1\<lparr>console_errors := Suc (console_errors st1)\<rparr>
                 | Ok u \<Rightarrow>
                     st1\<lparr>rows := filter (\<lambda>r. \<not> selected_uid cl r) (rows cl),
                         checked := [],
                         total := max 0 (total st1 - int (length selectedRows)),
                         dispatchedSet := dispatchedSet st1 \<union> set (map (\<lambda>sr. dispatch_key sr (d_Color sr)) selectedRows),
                         selectedColors :=
                           foldl (\<lambda>m sr. AList.delete (dispatch_key sr (d_Color sr))
                                            (AList.delete (dispatch_key sr (d_Old_Color sr)) m))
                             (selectedColors st1) selectedRows,
                         productionQtyByUid :=
                           foldl (\<lambda>m u. AList.delete u m) (productionQtyByUid st1) selectedUids\<rparr>)
          in st2\<lparr>saving := False\<rparr>)"

subsection \<open>Cancel order\<close>

definition handleCancelOrder :: "unit response \<Rightarrow> SalesOrderRow \<Rightarrow> table_state \<Rightarrow> table_state" where
  "handleCancelOrder res order st =
     (if string_or_empty (SO_No order) = [] then st
      else case res of
             Ok u \<Rightarrow> st\<lparr>rows := map (\<lambda>row. if SO_No row = SO_No order then row\<lparr>Status := Some ''Cancelled''\<rparr> else row)
                                   (rows st)\<rparr>
           | NotOk \<Rightarrow> st\<lparr>console_errors := Suc (console_errors st)\<rparr>
           | NetworkError \<Rightarrow> st\<lparr>console_errors := Suc (console_errors st)\<rparr>)"

section \<open>A sample platform and a sample page\<close>

text \<open>
  A platform for evaluating the model on concrete inputs. Its \<open>Date.parse\<close> knows the
  dates the samples use (and rejects everything else), and its \<open>Number\<close> reads decimal
  digits (the empty string as 0, as JavaScript does) and rejects everything else; on the
  strings of the samples they agree with JavaScript.
\<close>

definition sample_Date_parse :: "string \<Rightarrow> int option" where
  "sample_Date_parse s =
     (if s = ''2024-01-01'' then Some 1704067200000
      else if s = ''2024-01-15'' then Some 1705276800000
      else if s = ''2024-02-01'' then Some 1706745600000
      else None)"

definition sample_toISODate :: "int \<Rightarrow> string" where
  "sample_toISODate t =
     (if t = 1704067200000 then ''2024-01-01''
      else if t = 1705276800000 then ''2024-01-15''
      else if t = 1706745600000 then ''2024-02-01''
      else ''1970-01-01'')"

definition sample_Number :: "string \<Rightarrow> jsnum" where
  "sample_Number s =
     (let t = trim s in
      if t = [] then Num 0
      else if list_all is_digit t then Num (foldl (\<lambda>n c. 10 * n + (int (of_char c) - 48)) 0 t)
      else NaN)"

definition sample_env :: js_env where
  "sample_env = \<lparr>Date_parse = sample_Date_parse, toISODate = sample_toISODate,
                  Number_of_string = sample_Number, Date_now = 1706745600000, randomUUID = None\<rparr>"

definition order_row :: "string \<Rightarrow> string \<Rightarrow> string \<Rightarrow> string \<Rightarrow> int \<Rightarrow> string option \<Rightarrow> SalesOrderRow" where
  "order_row so cust it col qty d =
     \<lparr>SO_Date = None, SO_No = Some so, Customer = Some cust, Item = Some it, ItemCode = None,
      Color = Some col, New_Color = None, Size = None, OrderQty = Some qty, Status = Some ''Active'',
      so_date_parsed = d, Stock = None, StockByColor = None, ProductionQty = None,
      uid = None, pending = None\<rparr>"

definition stock_record :: "string \<Rightarrow> string \<Rightarrow> jsval \<Rightarrow> js_record" where
  "stock_record it col cs = [(''normalized_item'', JString it), (''Color'', JString col), (''Closing_Stock'', cs)]"

text \<open>
  Three orders of one customer: the first is dispatched, the second has no stock left, the
  third has stock. The fourth order's only stock record carries a closing stock that is
  not a number.
\<close>

definition sample_orders :: "SalesOrderRow list" where
  "sample_orders = [order_row ''s1'' ''a [x]'' ''i1'' ''r'' 5 (Some ''2024-01-01''),
                    order_row ''s2'' ''a'' ''i2'' ''b'' 7 (Some ''2024-01-15''),
                    order_row ''s3'' ''a'' ''i3'' ''g'' 7 (Some ''2024-01-01''),
                    order_row ''s4'' ''a'' ''i4'' ''k'' 9 None]"

definition sample_page :: cycle_input where
  "sample_page =
     \<lparr>limit = 25, customers = [], items = [], page_in = 0, pendingMap_keys = [],
      dispatch_keys_res = Ok (Some [''S1|A|I1|R'']),
      verify_res = Ok (Some []),
      orders_res = Ok \<lparr>body_rows = sample_orders, body_total = Num 40\<rparr>,
      invoice_res = Ok (Some []),
      stock_res = Ok (Some [stock_record ''i2'' ''b'' (JNumber 0),
                            stock_record ''i3'' ''g'' (JNumber 12),
                            stock_record ''i4'' ''k'' (JString ''abc'')]),
      abort_at = None\<rparr>"

section \<open>The orders table: facts about a cycle\<close>

subsection \<open>What a cycle can set\<close>

definition cycle_dispatched :: "cycle_input \<Rightarrow> string set" where
  "cycle_dispatched inp = (case dispatch_keys_res inp of Ok keys \<Rightarrow> dispatched_set_of keys | _ \<Rightarrow> {})"

definition annotated_from :: "SalesOrderRow list \<Rightarrow> SalesOrderRow list \<Rightarrow> bool" where
  "annotated_from base annotated \<longleftrightarrow> annotated = base \<or> (\<exists>maps. annotated = map (annotate_stock maps) base)"

definition base_rows :: "js_env \<Rightarrow> cycle_input \<Rightarrow> string set \<Rightarrow> SalesOrderRow list \<Rightarrow> bool" where
  "base_rows env inp D base \<longleftrightarrow>
     (\<exists>P vm data fim. orders_res inp = Ok data \<and>
        base = filter (invoice_keeps env fim)
                 (rows_after_exclusions env D P vm (pendingMap_keys inp) (body_rows data)))"

definition cycle_rows :: "js_env \<Rightarrow> cycle_input \<Rightarrow> string set \<Rightarrow> SalesOrderRow list \<Rightarrow> bool" where
  "cycle_rows env inp D rs \<longleftrightarrow>
     (\<exists>base annotated. base_rows env inp D base \<and> annotated_from base annotated \<and>
        rs = final_rows env (customers inp) (items inp) annotated)"

lemma finish_cycle_SetRows:
  assumes "SetRows rs \<in> set (finish_cycle env inp sT n base)"
  shows "\<exists>annotated. annotated_from base annotated \<and> rs = final_rows env (customers inp) (items inp) annotated"
proof -
  from assms have "rs = final_rows env (customers inp) (items inp) base \<or>
      rs = final_rows env (customers inp) (items inp)
             (map (annotate_stock (stock_maps env
                (case stock_res inp of Ok (Some srs) \<Rightarrow> srs | _ \<Rightarrow> []))) base)"
    by (auto simp: finish_cycle_def Let_def without_signal_def
        split: if_splits response.splits outcome.splits prod.splits option.splits)
  then show ?thesis unfolding annotated_from_def by blast
qed

lemma finish_cycle_SetTotal:
  "SetTotal t \<in> set (finish_cycle env inp sT n base) \<Longrightarrow> \<exists>m. t = computedTotal sT n m"
  by (auto simp: finish_cycle_def Let_def without_signal_def
      split: if_splits response.splits outcome.splits prod.splits)

lemma finish_cycle_SetDispatchedSet:
  "SetDispatchedSet D' \<notin> set (finish_cycle env inp sT n base)"
  by (auto simp: finish_cycle_def Let_def without_signal_def
      split: if_splits response.splits outcome.splits prod.splits)

lemma set_map_filter_eq: "set (List.map_filter g xs) = {y. \<exists>x \<in> set xs. g x = Some y}"
  by (induction xs) (auto split: option.splits)

lemma select_color_calls_only:
  "e \<in> set (select_color_calls vm incoming) \<Longrightarrow> \<exists>k c. e = SelectColor k c"
  by (auto simp: select_color_calls_def set_map_filter_eq)

lemma after_orders_SetRows:
  assumes "SetRows rs \<in> set (after_orders env inp D P vm data)"
  shows "\<exists>fim annotated.
           annotated_from (filter (invoice_keeps env fim)
              (rows_after_exclusions env D P vm (pendingMap_keys inp) (body_rows data))) annotated \<and>
           rs = final_rows env (customers inp) (items inp) annotated"
proof -
  from assms obtain fim sT where
    "SetRows rs \<in> set (finish_cycle env inp sT (length (body_rows data))
        (filter (invoice_keeps env fim)
           (rows_after_exclusions env D P vm (pendingMap_keys inp) (body_rows data))))"
    by (auto simp: after_orders_def Let_def dest: select_color_calls_only
        split: if_splits response.splits outcome.splits prod.splits)
  from finish_cycle_SetRows [OF this] show ?thesis by blast
qed

lemma after_orders_SetTotal:
  assumes "SetTotal t \<in> set (after_orders env inp D P vm data)"
  shows "\<exists>sT n m. t = computedTotal sT n m"
proof -
  from assms obtain fim sT base where
    "SetTotal t \<in> set (finish_cycle env inp sT (length (body_rows data)) base)"
    by (auto simp: after_orders_def Let_def dest: select_color_calls_only
        split: if_splits response.splits outcome.splits prod.splits)
  from finish_cycle_SetTotal [OF this] show ?thesis by blast
qed

lemma after_orders_SetDispatchedSet:
  "SetDispatchedSet D' \<notin> set (after_orders env inp D P vm data)"
  by (auto simp: after_orders_def Let_def finish_cycle_SetDispatchedSet dest: select_color_calls_only
      split: if_splits response.splits outcome.splits prod.splits)

lemma with_signal_Settled: "with_signal a i r = Settled r' \<Longrightarrow> r' = r"
  by (auto simp: with_signal_def split: option.splits if_splits)

lemma after_verify_SetRows:
  assumes "SetRows rs \<in> set (after_verify env inp D P vm)"
  shows "rs = [] \<or> (\<exists>data. orders_res inp = Ok data \<and> SetRows rs \<in> set (after_orders env inp D P vm data))"
  using assms
  by (auto simp: after_verify_def dest!: with_signal_Settled split: response.splits outcome.splits)

lemma after_verify_SetTotal:
  assumes "SetTotal t \<in> set (after_verify env inp D P vm)"
  shows "t = 0 \<or> (\<exists>data. SetTotal t \<in> set (after_orders env inp D P vm data))"
  using assms
  by (auto simp: after_verify_def split: response.splits outcome.splits)

lemma after_verify_SetDispatchedSet:
  "SetDispatchedSet D' \<notin> set (after_verify env inp D P vm)"
  by (auto simp: after_verify_def after_orders_SetDispatchedSet split: response.splits outcome.splits)

lemma after_dispatch_keys_SetRows:
  assumes "SetRows rs \<in> set (after_dispatch_keys env inp D)"
  shows "\<exists>P vm. SetRows rs \<in> set (after_verify env inp D P vm)"
  using assms
  by (auto simp: after_dispatch_keys_def Let_def split: response.splits outcome.splits)

lemma after_dispatch_keys_SetTotal:
  assumes "SetTotal t \<in> set (after_dispatch_keys env inp D)"
  shows "\<exists>P vm. SetTotal t \<in> set (after_verify env inp D P vm)"
  using assms
  by (auto simp: after_dispatch_keys_def Let_def split: response.splits outcome.splits)

lemma after_dispatch_keys_SetDispatchedSet:
  "SetDispatchedSet D' \<in> set (after_dispatch_keys env inp D) \<Longrightarrow> D' = D"
  by (auto simp: after_dispatch_keys_def Let_def after_verify_SetDispatchedSet
      split: response.splits outcome.splits)

lemma load_stage:
  assumes "e \<in> set (load env inp)" and "e \<noteq> SetLoading True" and "e \<noteq> SetLoading False"
  shows "e \<in> set (after_dispatch_keys env inp (cycle_dispatched inp))"
proof -
  from assms obtain r where w: "with_signal (abort_at inp) 1 (dispatch_keys_res inp) = Settled r"
    by (auto simp: load_def split: outcome.splits)
  then have r: "r = dispatch_keys_res inp" by (rule with_signal_Settled)
  from assms w r show ?thesis
    by (cases "dispatch_keys_res inp") (auto simp: load_def cycle_dispatched_def)
qed

lemma load_SetDispatchedSet:
  "SetDispatchedSet D \<in> set (load env inp) \<Longrightarrow> D = cycle_dispatched inp"
  using load_stage [of "SetDispatchedSet D" env inp] after_dispatch_keys_SetDispatchedSet by auto

lemma load_SetRows:
  assumes "SetRows rs \<in> set (load env inp)"
  shows "rs = [] \<or> cycle_rows env inp (cycle_dispatched inp) rs"
proof -
  let ?D = "cycle_dispatched inp"
  from load_stage [OF assms] have "SetRows rs \<in> set (after_dispatch_keys env inp ?D)" by simp
  then obtain P vm where v: "SetRows rs \<in> set (after_verify env inp ?D P vm)"
    using after_dispatch_keys_SetRows by blast
  show ?thesis
  proof (cases "rs = []")
    case True
    then show ?thesis by simp
  next
    case False
    with after_verify_SetRows [OF v] obtain data where d: "orders_res inp = Ok data"
      and o: "SetRows rs \<in> set (after_orders env inp ?D P vm data)" by blast
    from after_orders_SetRows [OF o] d have "cycle_rows env inp ?D rs"
      unfolding cycle_rows_def base_rows_def by blast
    then show ?thesis by simp
  qed
qed

lemma computedTotal_nonneg: "0 \<le> computedTotal sT n m"
  by (simp add: computedTotal_def Let_def split: jsnum.splits)

lemma load_SetTotal:
  assumes "SetTotal t \<in> set (load env inp)"
  shows "0 \<le> t"
proof -
  from load_stage [OF assms] have "SetTotal t \<in> set (after_dispatch_keys env inp (cycle_dispatched inp))"
    by simp
  then obtain P vm where "SetTotal t \<in> set (after_verify env inp (cycle_dispatched inp) P vm)"
    using after_dispatch_keys_SetTotal by blast
  from after_verify_SetTotal [OF this] show ?thesis
    using after_orders_SetTotal computedTotal_nonneg by fastforce
qed

subsection \<open>Keys of the rows of a cycle\<close>

lemma rowKeyFrom_with_uid [simp]: "rowKeyFrom (with_uid env P vm i r) = rowKeyFrom r"
  by (simp add: rowKeyFrom_def with_uid_def)

lemma rowKeyFrom_annotate_stock [simp]: "rowKeyFrom (annotate_stock maps r) = rowKeyFrom r"
  by (simp add: rowKeyFrom_def annotate_stock_def Let_def)

lemma set_insert_sorted [simp]: "set (insert_sorted cmp x ys) = insert x (set ys)"
  by (induction ys) auto

lemma set_js_sort [simp]: "set (js_sort cmp xs) = set xs"
  by (induction xs) (simp_all add: js_sort_def)

lemma length_insert_sorted [simp]: "length (insert_sorted cmp x ys) = Suc (length ys)"
  by (induction ys) auto

lemma length_js_sort [simp]: "length (js_sort cmp xs) = length xs"
  by (induction xs) (simp_all add: js_sort_def)

lemma exclude_keys_subset: "set (exclude_keys s rs) \<subseteq> set rs"
  by (auto simp: exclude_keys_def)

lemma exclude_keys_excluded: "r \<in> set (exclude_keys s rs) \<Longrightarrow> rowKeyFrom r \<notin> s"
  by (auto simp: exclude_keys_def split: if_splits)

lemma rows_after_exclusions_excluded:
  "r \<in> set (rows_after_exclusions env D P vm pk incoming) \<Longrightarrow> rowKeyFrom r \<notin> D"
  unfolding rows_after_exclusions_def
  using exclude_keys_subset exclude_keys_excluded by blast

lemma annotated_from_keys:
  "annotated_from base annotated \<Longrightarrow> rowKeyFrom ` set annotated \<subseteq> rowKeyFrom ` set base"
  by (auto simp: annotated_from_def)

lemma final_rows_subset: "set (final_rows env cs its xs) \<subseteq> set xs"
  by (auto simp: final_rows_def)

lemma cycle_rows_excluded:
  assumes "cycle_rows env inp D rs" and "r \<in> set rs"
  shows "rowKeyFrom r \<notin> D"
proof -
  from assms(1) obtain base annotated where b: "base_rows env inp D base"
    and a: "annotated_from base annotated"
    and rs: "rs = final_rows env (customers inp) (items inp) annotated"
    unfolding cycle_rows_def by blast
  from rs assms(2) final_rows_subset have "r \<in> set annotated" by blast
  with annotated_from_keys [OF a] obtain r' where r': "r' \<in> set base" "rowKeyFrom r' = rowKeyFrom r"
    by (metis image_iff subsetD)
  from b r'(1) have "rowKeyFrom r' \<notin> D"
    unfolding base_rows_def using rows_after_exclusions_excluded by auto
  with r'(2) show ?thesis by simp
qed

lemma load_rows_not_dispatched:
  assumes "SetRows rs \<in> set (load env inp)" and "SetDispatchedSet D \<in> set (load env inp)"
    and "r \<in> set rs"
  shows "rowKeyFrom r \<notin> D"
proof -
  from load_SetDispatchedSet [OF assms(2)] have D: "D = cycle_dispatched inp" .
  from load_SetRows [OF assms(1)] assms(3) have "cycle_rows env inp (cycle_dispatched inp) rs" by auto
  from cycle_rows_excluded [OF this assms(3)] D show ?thesis by simp
qed

subsection \<open>Rows under the actions\<close>

lemma selected_uid_checked: "selected_uid cl r \<Longrightarrow> map fst (filter snd (checked cl)) \<noteq> []"
proof -
  assume "selected_uid cl r"
  then obtain u where "map_of (checked cl) u = Some True"
    by (auto simp: selected_uid_def is_checked_def split: option.splits)
  then have "(u, True) \<in> set (checked cl)" by (rule map_of_SomeD)
  then have "(u, True) \<in> set (filter snd (checked cl))" by simp
  then show ?thesis by (auto simp del: set_filter)
qed

lemma handleVerifySelected_rows:
  "rows (handleVerifySelected res cl st) =
     (if res = Ok () \<and> rowsToSend cl \<noteq> []
      then filter (\<lambda>r. rowKeyFrom r \<notin> set (map outgoing_key (rowsToSend cl))) (rows st)
      else rows st)"
  by (cases res) (simp_all add: handleVerifySelected_def Let_def)

lemma handleSaveDispatched_rows:
  "rows (handleSaveDispatched res cl st) =
     (if res = Ok () \<and> filter (selected_uid cl) (rows cl) \<noteq> []
      then filter (\<lambda>r. \<not> selected_uid cl r) (rows cl)
      else rows st)"
proof (cases "filter (selected_uid cl) (rows cl) = []")
  case True
  then show ?thesis by (simp add: handleSaveDispatched_def Let_def)
next
  case False
  then obtain r where "selected_uid cl r" by (auto simp: filter_empty_conv)
  then have "map fst (filter snd (checked cl)) \<noteq> []" by (rule selected_uid_checked)
  with False show ?thesis
    by (cases res) (simp_all add: handleSaveDispatched_def Let_def)
qed

lemma handleCancelOrder_keys:
  "map rowKeyFrom (rows (handleCancelOrder res order st)) = map rowKeyFrom (rows st)"
  by (auto simp: handleCancelOrder_def rowKeyFrom_def split: response.splits)

lemma js_truthy_not_nullish: "js_truthy v \<Longrightarrow> \<not> is_nullish v"
  by (cases v) (auto simp: is_nullish_def)

lemma confirmed_field: "(if js_truthy v then js_String v else string_of v) = string_of v"
  using js_truthy_not_nullish [of v] by (auto simp: string_of_def coalesce2_def)

lemma rowKeyFrom_confirmed_row:
  "rowKeyFrom ((confirmed_row env incoming)\<lparr>uid := u\<rparr>) = incoming_key incoming"
  by (simp add: rowKeyFrom_def confirmed_row_def incoming_key_def Let_def confirmed_field)

text \<open>The row a confirmation carries, as the handler builds it.\<close>

definition carried_row :: "js_env \<Rightarrow> nat \<Rightarrow> js_record \<Rightarrow> SalesOrderRow" where
  "carried_row env idx incoming =
     (let newRow = confirmed_row env incoming in
      newRow\<lparr>uid := Some (uidForRow env (SO_No newRow) (or_else (Item newRow) (ItemCode newRow))
                             (Color newRow) idx)\<rparr>)"

lemma rowKeyFrom_carried_row: "rowKeyFrom (carried_row env idx incoming) = incoming_key incoming"
  by (simp add: carried_row_def Let_def rowKeyFrom_confirmed_row)

lemma on_verified_confirmed_rows:
  "rows (on_verified_confirmed env idx ty (Some incoming) st) =
     (if ty = Some ''verified:confirmed'' \<and> incoming_key incoming \<notin> rowKeyFrom ` set (rows st)
      then carried_row env idx incoming # rows st
      else rows st)"
  by (force simp: on_verified_confirmed_def carried_row_def Let_def list_ex_iff)

lemma on_verified_confirmed_dispatchedSet:
  "dispatchedSet (on_verified_confirmed env idx ty row st) = dispatchedSet st"
  by (auto simp: on_verified_confirmed_def Let_def split: option.splits)

lemma on_verified_confirmed_free:
  "(\<forall>r \<in> set (rows (on_verified_confirmed env idx (Some ''verified:confirmed'') (Some incoming) st)).
       rowKeyFrom r \<notin> D) \<longleftrightarrow>
   (\<forall>r \<in> set (rows st). rowKeyFrom r \<notin> D) \<and> incoming_key incoming \<notin> D"
  by (auto simp: on_verified_confirmed_rows rowKeyFrom_carried_row)

lemma useSalesOrders_load_SetRows:
  "SetRows rs \<in> set (useSalesOrders_load superseded res) \<Longrightarrow>
     rs = [] \<or> (\<exists>data. res = Ok data \<and> rs = body_rows data)"
  by (auto simp: useSalesOrders_load_def Let_def with_signal_def
      split: response.splits outcome.splits if_splits)

lemma useSalesOrders_load_SetTotal:
  "SetTotal t \<in> set (useSalesOrders_load superseded res) \<Longrightarrow>
     t = 0 \<or> (\<exists>data. res = Ok data \<and>
                t = (case body_total data of Num n \<Rightarrow> n | _ \<Rightarrow> int (length (body_rows data))))"
  by (auto simp: useSalesOrders_load_def Let_def with_signal_def
      split: response.splits outcome.splits if_splits)

section \<open>The sample page, evaluated\<close>

definition sample_visible :: "SalesOrderRow list" where
  "sample_visible =
     [(order_row ''s4'' ''a'' ''i4'' ''k'' 9 None)
        \<lparr>uid := Some ''s4__i4__k__3'', pending := Some False\<rparr>,
      (order_row ''s3'' ''a'' ''i3'' ''g'' 7 (Some ''2024-01-01''))
        \<lparr>uid := Some ''s3__i3__g__2'', pending := Some False,
         Stock := Some (Num 12), StockByColor := Some [(''g'', Num 12)]\<rparr>]"

lemma sample_load:
  "load sample_env sample_page =
     [SetLoading True, SetDispatchedSet {''S1|A|I1|R''}, SetPendingSet {}, SetInvoiceMap [],
      SetRows sample_visible, SetTotal 38, ClearCollapsedGroups, ClearChecked, SetLoading False]"
  by code_simp

lemma sample_page_start:
  "sample_page\<lparr>page_in := 0, pendingMap_keys := []\<rparr> = sample_page"
  by (simp add: sample_page_def)

lemma sample_cycle:
  "run_cycle sample_env sample_page initial_state
     = initial_state\<lparr>rows := sample_visible, total := 38, dispatchedSet := {''S1|A|I1|R''}\<rparr>"
  by (simp add: run_cycle_def initial_state_def sample_page_start sample_load)

text \<open>A cycle that is superseded while the stock batch is awaited runs as if it were not.\<close>

lemma finish_cycle_superseded:
  "finish_cycle env (inp\<lparr>abort_at := a\<rparr>) sT n base = finish_cycle env inp sT n base"
  by (simp add: finish_cycle_def without_signal_def
      cong: response.case_cong outcome.case_cong if_cong)

lemma after_orders_superseded:
  "after_orders env (inp\<lparr>abort_at := Some 5\<rparr>) D P vm data
     = after_orders env (inp\<lparr>abort_at := None\<rparr>) D P vm data"
  by (simp add: after_orders_def with_signal_def finish_cycle_superseded
      cong: response.case_cong outcome.case_cong if_cong)

lemma after_verify_superseded:
  "after_verify env (inp\<lparr>abort_at := Some 5\<rparr>) D P vm
     = after_verify env (inp\<lparr>abort_at := None\<rparr>) D P vm"
  by (simp add: after_verify_def with_signal_def after_orders_superseded
      cong: response.case_cong outcome.case_cong)

lemma after_dispatch_keys_superseded:
  "after_dispatch_keys env (inp\<lparr>abort_at := Some 5\<rparr>) D
     = after_dispatch_keys env (inp\<lparr>abort_at := None\<rparr>) D"
  by (simp add: after_dispatch_keys_def with_signal_def after_verify_superseded
      cong: response.case_cong outcome.case_cong)

lemma load_superseded_during_stock:
  "load env (inp\<lparr>abort_at := Some 5\<rparr>) = load env (inp\<lparr>abort_at := None\<rparr>)"
  by (simp add: load_def with_signal_def after_dispatch_keys_superseded
      cong: response.case_cong outcome.case_cong)

lemma sample_page_not_superseded: "sample_page\<lparr>abort_at := None\<rparr> = sample_page"
  by (simp add: sample_page_def)

section \<open>Dispatched rows and the visible row set\<close>

definition sample_confirmation :: js_record where
  "sample_confirmation = [(''SO_No'', JString ''s1''), (''Customer'', JString ''a [x]''),
                          (''Item'', JString ''i1''), (''Color'', JString ''r''),
                          (''OrderQty'', JNumber 5)]"

text \<open>
  C1, as the specification states it, fails in its second half. On the sample page the
  order \<open>s1\<close> is in the dispatched set of the cycle and the cycle leaves it out of the
  visible rows; a \<open>verified:confirmed\<close> message that carries this order then puts it at
  the front of the visible rows, while its key is in the dispatched set: the handler
  looks for the key among the visible rows only.
\<close>

theorem dispatched_row_reinserted_counterexample:
  "incoming_key sample_confirmation \<in> dispatchedSet (run_cycle sample_env sample_page initial_state) \<and>
   incoming_key sample_confirmation \<notin> rowKeyFrom ` set (rows (run_cycle sample_env sample_page initial_state)) \<and>
   rowKeyFrom (hd (rows (on_verified_confirmed sample_env 0 (Some ''verified:confirmed'')
                     (Some sample_confirmation) (run_cycle sample_env sample_page initial_state))))
     \<in> dispatchedSet (on_verified_confirmed sample_env 0 (Some ''verified:confirmed'')
                     (Some sample_confirmation) (run_cycle sample_env sample_page initial_state))"
  unfolding sample_cycle by code_simp

text \<open>
  C1, amended. The rows a cycle sets hold no row whose key is in the dispatched set that
  cycle fetched. Of the later writers of the visible rows, none looks at the dispatched
  set:
  \<^item> the verify-request action removes the rows it submitted from the rows of the moment;
  \<^item> the save-dispatched action writes the rows of the render the operator clicked in, less
    the rows submitted;
  \<^item> the cancel action keeps the keys of the rows;
  \<^item> a \<open>verified:confirmed\<close> message puts the row it carries in front of the rows when no
    visible row has its key and changes no row otherwise, so the rows after it are free of
    the keys of a set exactly when they were before and the key of the carried row is not
    in the set; a message without a row changes nothing;
  \<^item> the fetch of the hook sets the rows the order boundary returns, or none.
\<close>

theorem visible_rows_not_dispatched:
  "(\<forall>rs D r. SetRows rs \<in> set (load env inp) \<and> SetDispatchedSet D \<in> set (load env inp) \<and> r \<in> set rs
       \<longrightarrow> rowKeyFrom r \<notin> D) \<and>
   rows (handleVerifySelected res cl st) =
     (if res = Ok () \<and> rowsToSend cl \<noteq> []
      then filter (\<lambda>r. rowKeyFrom r \<notin> set (map outgoing_key (rowsToSend cl))) (rows st)
      else rows st) \<and>
   rows (handleSaveDispatched res cl st) =
     (if res = Ok () \<and> filter (selected_uid cl) (rows cl) \<noteq> []
      then filter (\<lambda>r. \<not> selected_uid cl r) (rows cl)
      else rows st) \<and>
   map rowKeyFrom (rows (handleCancelOrder res order st)) = map rowKeyFrom (rows st) \<and>
   rows (on_verified_confirmed env idx ty (Some incoming) st) =
     (if ty = Some ''verified:confirmed'' \<and> incoming_key incoming \<notin> rowKeyFrom ` set (rows st)
      then carried_row env idx incoming # rows st
      else rows st) \<and>
   rowKeyFrom (carried_row env idx incoming) = incoming_key incoming \<and>
   ((\<forall>r \<in> set (rows (on_verified_confirmed env idx (Some ''verified:confirmed'') (Some incoming) st)).
        rowKeyFrom r \<notin> D') \<longleftrightarrow>
    (\<forall>r \<in> set (rows st). rowKeyFrom r \<notin> D') \<and> incoming_key incoming \<notin> D') \<and>
   on_verified_confirmed env idx ty None st = st \<and>
   (\<forall>rs. SetRows rs \<in> set (useSalesOrders_load superseded res') \<longrightarrow>
      rs = [] \<or> (\<exists>data. res' = Ok data \<and> rs = body_rows data))"
proof (intro conjI)
  show "\<forall>rs D r. SetRows rs \<in> set (load env inp) \<and> SetDispatchedSet D \<in> set (load env inp) \<and> r \<in> set rs
       \<longrightarrow> rowKeyFrom r \<notin> D"
    using load_rows_not_dispatched by blast
  show "rows (handleVerifySelected res cl st) =
     (if res = Ok () \<and> rowsToSend cl \<noteq> []
      then filter (\<lambda>r. rowKeyFrom r \<notin> set (map outgoing_key (rowsToSend cl))) (rows st)
      else rows st)"
    by (rule handleVerifySelected_rows)
  show "rows (handleSaveDispatched res cl st) =
     (if res = Ok () \<and> filter (selected_uid cl) (rows cl) \<noteq> []
      then filter (\<lambda>r. \<not> selected_uid cl r) (rows cl)
      else rows st)"
    by (rule handleSaveDispatched_rows)
  show "map rowKeyFrom (rows (handleCancelOrder res order st)) = map rowKeyFrom (rows st)"
    by (rule handleCancelOrder_keys)
  show "rows (on_verified_confirmed env idx ty (Some incoming) st) =
     (if ty = Some ''verified:confirmed'' \<and> incoming_key incoming \<notin> rowKeyFrom ` set (rows st)
      then carried_row env idx incoming # rows st
      else rows st)"
    by (rule on_verified_confirmed_rows)
  show "rowKeyFrom (carried_row env idx incoming) = incoming_key incoming"
    by (rule rowKeyFrom_carried_row)
  show "(\<forall>r \<in> set (rows (on_verified_confirmed env idx (Some ''verified:confirmed'') (Some incoming) st)).
        rowKeyFrom r \<notin> D') \<longleftrightarrow>
    (\<forall>r \<in> set (rows st). rowKeyFrom r \<notin> D') \<and> incoming_key incoming \<notin> D'"
    by (rule on_verified_confirmed_free)
  show "on_verified_confirmed env idx ty None st = st"
    by (simp add: on_verified_confirmed_def)
  show "\<forall>rs. SetRows rs \<in> set (useSalesOrders_load superseded res') \<longrightarrow>
      rs = [] \<or> (\<exists>data. res' = Ok data \<and> rs = body_rows data)"
    using useSalesOrders_load_SetRows by blast
qed

theorem visible_rows_not_dispatched_witness:
  "SetRows sample_visible \<in> set (load sample_env sample_page) \<and>
   SetDispatchedSet {''S1|A|I1|R''} \<in> set (load sample_env sample_page) \<and>
   hd sample_visible \<in> set sample_visible \<and>
   rowKeyFrom (hd sample_visible) \<notin> {''S1|A|I1|R''}"
proof -
  have h: "SetRows sample_visible \<in> set (load sample_env sample_page) \<and>
      SetDispatchedSet {''S1|A|I1|R''} \<in> set (load sample_env sample_page) \<and>
      hd sample_visible \<in> set sample_visible"
    by (simp add: sample_load sample_visible_def)
  from visible_rows_not_dispatched [where env = sample_env and inp = sample_page and st = initial_state
      and cl = initial_state and res = NotOk and order = "order_row [] [] [] [] 0 None" and D' = "{}"
      and incoming = "[]" and idx = 0 and ty = None and superseded = False and res' = NotOk]
  have "\<forall>rs D r. SetRows rs \<in> set (load sample_env sample_page) \<and>
      SetDispatchedSet D \<in> set (load sample_env sample_page) \<and> r \<in> set rs \<longrightarrow> rowKeyFrom r \<notin> D"
    by (elim conjE)
  from this [rule_format, OF h]
  have "rowKeyFrom (hd sample_visible) \<notin> {''S1|A|I1|R''}" .
  with h show ?thesis by simp
qed

section \<open>A superseded cycle\<close>

text \<open>
  C3 at a failing input: the sample page, superseded while its stock batch is awaited.
  The request for the stock batch does not carry the cycle's signal, so it completes, and
  the cycle sets the rows and the total as if nothing had happened. Superseded while the
  invoice details are awaited, the cycle swallows the abort, sets an empty invoice map
  and goes on to set the rows and the total as well.
\<close>

theorem superseded_cycle_sets_rows:
  "load sample_env (sample_page\<lparr>abort_at := Some 5\<rparr>) =
     [SetLoading True, SetDispatchedSet {''S1|A|I1|R''}, SetPendingSet {}, SetInvoiceMap [],
      SetRows sample_visible, SetTotal 38, ClearCollapsedGroups, ClearChecked, SetLoading False] \<and>
   load sample_env (sample_page\<lparr>abort_at := Some 4\<rparr>) =
     [SetLoading True, SetDispatchedSet {''S1|A|I1|R''}, SetPendingSet {}, SetInvoiceMap [],
      SetRows sample_visible, SetTotal 38, ClearCollapsedGroups, ClearChecked, SetLoading False] \<and>
   load sample_env (sample_page\<lparr>abort_at := Some 3\<rparr>) =
     [SetLoading True, SetDispatchedSet {''S1|A|I1|R''}, SetPendingSet {}, SetLoading False]"
proof (intro conjI)
  show "load sample_env (sample_page\<lparr>abort_at := Some 5\<rparr>) =
     [SetLoading True, SetDispatchedSet {''S1|A|I1|R''}, SetPendingSet {}, SetInvoiceMap [],
      SetRows sample_visible, SetTotal 38, ClearCollapsedGroups, ClearChecked, SetLoading False]"
    by (simp only: load_superseded_during_stock sample_page_not_superseded sample_load)
  show "load sample_env (sample_page\<lparr>abort_at := Some 4\<rparr>) =
     [SetLoading True, SetDispatchedSet {''S1|A|I1|R''}, SetPendingSet {}, SetInvoiceMap [],
      SetRows sample_visible, SetTotal 38, ClearCollapsedGroups, ClearChecked, SetLoading False]"
    by code_simp
  show "load sample_env (sample_page\<lparr>abort_at := Some 3\<rparr>) =
     [SetLoading True, SetDispatchedSet {''S1|A|I1|R''}, SetPendingSet {}, SetLoading False]"
    by code_simp
qed

section \<open>Stock and the visible row set\<close>

lemma stock_step_total_None:
  "map_of (fst (stock_step env maps s)) k = None \<longleftrightarrow>
     map_of (fst maps) k = None \<and>
     \<not> (stock_item s = k \<and> k \<noteq> [] \<and> closing_stock env (get_prop s ''Closing_Stock'') \<noteq> NaN)"
  by (auto simp: stock_step_def Let_def update_conv')

lemma stock_maps_total_None_aux:
  "map_of (fst (foldl (stock_step env) maps rs)) k = None \<longleftrightarrow>
     map_of (fst maps) k = None \<and>
     (\<forall>s \<in> set rs. \<not> (stock_item s = k \<and> k \<noteq> [] \<and> closing_stock env (get_prop s ''Closing_Stock'') \<noteq> NaN))"
proof (induction rs arbitrary: maps)
  case Nil
  show ?case by simp
next
  case (Cons s rs)
  show ?case by (simp add: Cons.IH stock_step_total_None)
qed

lemma stock_maps_total_None:
  "map_of (fst (stock_maps env rs)) k = None \<longleftrightarrow>
     (\<forall>s \<in> set rs. \<not> (stock_item s = k \<and> k \<noteq> [] \<and> closing_stock env (get_prop s ''Closing_Stock'') \<noteq> NaN))"
  by (simp add: stock_maps_def stock_maps_total_None_aux)

lemma annotate_stock_None:
  "Stock (annotate_stock (stock_maps env stockRows) row) = None \<longleftrightarrow>
     (\<forall>s \<in> set stockRows.
        \<not> (stock_item s = normItemKey (or_else (Item row) (ItemCode row)) \<and>
           normItemKey (or_else (Item row) (ItemCode row)) \<noteq> [] \<and>
           closing_stock env (get_prop s ''Closing_Stock'') \<noteq> NaN))"
  by (auto simp: annotate_stock_def Let_def stock_maps_total_None)

lemma final_rows_stock: "r \<in> set (final_rows env cs its xs) \<Longrightarrow> stock_keeps r"
  by (simp add: final_rows_def)

lemma stock_keeps_iff: "stock_keeps r \<longleftrightarrow> Stock r \<noteq> Some (Num 0) \<and> Stock r \<noteq> Some NaN"
  by (auto simp: stock_keeps_def split: option.splits)

lemma load_rows_stock:
  assumes "SetRows rs \<in> set (load env inp)" and "r \<in> set rs"
  shows "Stock r \<noteq> Some (Num 0) \<and> Stock r \<noteq> Some NaN"
proof -
  from load_SetRows [OF assms(1)] assms(2) have "cycle_rows env inp (cycle_dispatched inp) rs" by auto
  then obtain annotated where "rs = final_rows env (customers inp) (items inp) annotated"
    unfolding cycle_rows_def by blast
  with assms(2) final_rows_stock have "stock_keeps r" by blast
  then show ?thesis by (simp add: stock_keeps_iff)
qed

lemma final_rows_keeps_unknown:
  "r \<in> set xs \<Longrightarrow> Stock r = None \<Longrightarrow> selection_keeps cs its r \<Longrightarrow> r \<in> set (final_rows env cs its xs)"
  by (simp add: final_rows_def stock_keeps_def)

text \<open>
  C5, as the specification states it, fails in its second part. On the sample page the
  only stock record of the item of order \<open>s4\<close> has the closing stock \<open>abc\<close>, which is
  not a number; the aggregation skips the record, the row gets no stock, and the row is
  visible.
\<close>

theorem unparsed_stock_row_kept_counterexample:
  "closing_stock sample_env (JString ''abc'') = NaN \<and>
   map (\<lambda>r. (SO_No r, Stock r)) (rows (run_cycle sample_env sample_page initial_state))
     = [(Some ''s4'', None), (Some ''s3'', Some (Num 12))]"
  unfolding sample_cycle by code_simp

text \<open>
  C5, amended: no row of a row list that a cycle sets has a stock of exactly 0, or a
  stock that is NaN; a row without stock that passes the customer and item selection
  stays in the list; a stock record whose closing stock is not a number is skipped by the
  aggregation, and a row gets no stock exactly when no stock record of its item has a
  closing stock that is a number (in particular when there is no stock record at all).
\<close>

theorem zero_stock_rows_excluded:
  "(\<forall>rs r. SetRows rs \<in> set (load env inp) \<and> r \<in> set rs \<longrightarrow>
       Stock r \<noteq> Some (Num 0) \<and> Stock r \<noteq> Some NaN) \<and>
   (r \<in> set annotated \<and> Stock r = None \<and> selection_keeps cs its r \<longrightarrow>
       r \<in> set (final_rows env cs its annotated)) \<and>
   (closing_stock env (get_prop s ''Closing_Stock'') = NaN \<longrightarrow> stock_step env maps s = maps) \<and>
   (Stock (annotate_stock (stock_maps env stockRows) row) = None \<longleftrightarrow>
      (\<forall>s \<in> set stockRows.
         \<not> (stock_item s = normItemKey (or_else (Item row) (ItemCode row)) \<and>
            normItemKey (or_else (Item row) (ItemCode row)) \<noteq> [] \<and>
            closing_stock env (get_prop s ''Closing_Stock'') \<noteq> NaN)))"
proof (intro conjI)
  show "\<forall>rs r. SetRows rs \<in> set (load env inp) \<and> r \<in> set rs \<longrightarrow>
       Stock r \<noteq> Some (Num 0) \<and> Stock r \<noteq> Some NaN"
    using load_rows_stock by blast
  show "r \<in> set annotated \<and> Stock r = None \<and> selection_keeps cs its r \<longrightarrow>
       r \<in> set (final_rows env cs its annotated)"
    using final_rows_keeps_unknown by blast
  show "closing_stock env (get_prop s ''Closing_Stock'') = NaN \<longrightarrow> stock_step env maps s = maps"
    by (simp add: stock_step_def Let_def)
  show "Stock (annotate_stock (stock_maps env stockRows) row) = None \<longleftrightarrow>
      (\<forall>s \<in> set stockRows.
         \<not> (stock_item s = normItemKey (or_else (Item row) (ItemCode row)) \<and>
            normItemKey (or_else (Item row) (ItemCode row)) \<noteq> [] \<and>
            closing_stock env (get_prop s ''Closing_Stock'') \<noteq> NaN))"
    by (rule annotate_stock_None)
qed

theorem zero_stock_rows_excluded_witness:
  "SetRows sample_visible \<in> set (load sample_env sample_page) \<and>
   last sample_visible \<in> set sample_visible \<and>
   Stock (last sample_visible) \<noteq> Some (Num 0) \<and> Stock (last sample_visible) \<noteq> Some NaN \<and>
   Stock (last sample_visible) = Some (Num 12)"
proof -
  have h: "SetRows sample_visible \<in> set (load sample_env sample_page) \<and>
      last sample_visible \<in> set sample_visible"
    by (simp add: sample_load sample_visible_def)
  from zero_stock_rows_excluded [where env = sample_env and inp = sample_page and r = "hd sample_visible"
      and annotated = "[]" and cs = "[]" and its = "[]" and s = "[]" and maps = "([], [])"
      and stockRows = "[]" and row = "hd sample_visible"]
  have "\<forall>rs r. SetRows rs \<in> set (load sample_env sample_page) \<and> r \<in> set rs \<longrightarrow>
       Stock r \<noteq> Some (Num 0) \<and> Stock r \<noteq> Some NaN"
    by (elim conjE)
  from this [rule_format, OF h]
  have "Stock (last sample_visible) \<noteq> Some (Num 0) \<and> Stock (last sample_visible) \<noteq> Some NaN" .
  moreover have "Stock (last sample_visible) = Some (Num 12)"
    by (simp add: sample_visible_def order_row_def)
  ultimately show ?thesis using h by simp
qed

section \<open>The order of the visible rows\<close>









lemma js_strict_neq_known: "a \<noteq> NaN \<Longrightarrow> b \<noteq> NaN \<Longrightarrow> js_strict_neq a b \<longleftrightarrow> a \<noteq> b"
  by (simp add: js_strict_neq_def)











lemma date_of_with_uid [simp]: "date_of env (with_uid env' P vm i r) = date_of env r"
  by (simp add: date_of_def with_uid_def)

lemma date_of_annotate_stock [simp]: "date_of env (annotate_stock maps r) = date_of env r"
  by (simp add: date_of_def annotate_stock_def Let_def)





section \<open>A failed verification request\<close>

text \<open>
  C7: when the request to the verification boundary does not succeed (the response is
  not ok, or the request throws), the action leaves the visible rows, the pending set,
  the pending map, the selected colours, the check boxes and the total as they were.
\<close>

theorem failed_verify_request_keeps_state:
  "(\<forall>u. res \<noteq> Ok u) \<longrightarrow>
     rows (handleVerifySelected res cl st) = rows st \<and>
     pendingSet (handleVerifySelected res cl st) = pendingSet st \<and>
     pendingMap (handleVerifySelected res cl st) = pendingMap st \<and>
     selectedColors (handleVerifySelected res cl st) = selectedColors st \<and>
     checked (handleVerifySelected res cl st) = checked st \<and>
     total (handleVerifySelected res cl st) = total st"
  by (cases res) (simp_all add: handleVerifySelected_def Let_def)

definition sample_checked_state :: table_state where
  "sample_checked_state =
     initial_state\<lparr>rows := sample_visible, total := 38, dispatchedSet := {''S1|A|I1|R''},
                   checked := [(''s3__i3__g__2'', True)], selectedColors := [(''S4|A|I4|K'', ''w'')]\<rparr>"

theorem failed_verify_request_keeps_state_witness:
  "length (rowsToSend sample_checked_state) = 2 \<and>
   rows (handleVerifySelected NotOk sample_checked_state sample_checked_state) = sample_visible \<and>
   checked (handleVerifySelected NotOk sample_checked_state sample_checked_state) = [(''s3__i3__g__2'', True)] \<and>
   selectedColors (handleVerifySelected NotOk sample_checked_state sample_checked_state) = [(''S4|A|I4|K'', ''w'')] \<and>
   total (handleVerifySelected NotOk sample_checked_state sample_checked_state) = 38 \<and>
   rows (handleVerifySelected (Ok ()) sample_checked_state sample_checked_state) = [] \<and>
   total (handleVerifySelected (Ok ()) sample_checked_state sample_checked_state) = 36"
proof -
  have n: "length (rowsToSend sample_checked_state) = 2" by code_simp
  have f: "\<forall>u. (NotOk :: unit response) \<noteq> Ok u" by simp
  from failed_verify_request_keeps_state [of NotOk sample_checked_state sample_checked_state] f
  have "rows (handleVerifySelected NotOk sample_checked_state sample_checked_state) = rows sample_checked_state \<and>
     pendingSet (handleVerifySelected NotOk sample_checked_state sample_checked_state) = pendingSet sample_checked_state \<and>
     pendingMap (handleVerifySelected NotOk sample_checked_state sample_checked_state) = pendingMap sample_checked_state \<and>
     selectedColors (handleVerifySelected NotOk sample_checked_state sample_checked_state) = selectedColors sample_checked_state \<and>
     checked (handleVerifySelected NotOk sample_checked_state sample_checked_state) = checked sample_checked_state \<and>
     total (handleVerifySelected NotOk sample_checked_state sample_checked_state) = total sample_checked_state"
    by (rule mp)
  then have k: "rows (handleVerifySelected NotOk sample_checked_state sample_checked_state) = sample_visible \<and>
     checked (handleVerifySelected NotOk sample_checked_state sample_checked_state) = [(''s3__i3__g__2'', True)] \<and>
     selectedColors (handleVerifySelected NotOk sample_checked_state sample_checked_state) = [(''S4|A|I4|K'', ''w'')] \<and>
     total (handleVerifySelected NotOk sample_checked_state sample_checked_state) = 38"
    by (simp add: sample_checked_state_def initial_state_def)
  have s: "rows (handleVerifySelected (Ok ()) sample_checked_state sample_checked_state) = [] \<and>
     total (handleVerifySelected (Ok ()) sample_checked_state sample_checked_state) = 36"
    by code_simp
  from n k s show ?thesis by simp
qed

section \<open>The displayed total\<close>

text \<open>
  The states the table reaches. It starts in the initial state. The fetch of the hook and
  a cycle of the table run when the page or the filters change; the three actions and a
  confirmation from another tab change the state as modelled, an action with the state of
  the render the operator clicked in, which is a state reached before; the operator's
  selections (check boxes, replacement colours, production quantities, collapsed groups,
  the page) change the selection state only. \<open>reported\<close> says which totals the order
  boundary reports to the fetch of the hook.
\<close>

inductive reachable :: "(jsnum \<Rightarrow> bool) \<Rightarrow> table_state \<Rightarrow> bool" for reported :: "jsnum \<Rightarrow> bool" where
  start: "reachable reported initial_state"
| fetch: "reachable reported st \<Longrightarrow> (\<forall>data. res = Ok data \<longrightarrow> reported (body_total data)) \<Longrightarrow>
     reachable reported (run_fetch superseded res st)"
| cycle: "reachable reported st \<Longrightarrow> reachable reported (run_cycle env inp st)"
| verify: "reachable reported cl \<Longrightarrow> reachable reported st \<Longrightarrow>
     reachable reported (handleVerifySelected res' cl st)"
| dispatch: "reachable reported cl \<Longrightarrow> reachable reported st \<Longrightarrow>
     reachable reported (handleSaveDispatched res' cl st)"
| cancel: "reachable reported st \<Longrightarrow> reachable reported (handleCancelOrder res' order st)"
| confirmed: "reachable reported st \<Longrightarrow> reachable reported (on_verified_confirmed env idx ty row st)"
| select: "reachable reported st \<Longrightarrow>
     reachable reported (st\<lparr>checked := c, selectedColors := sc, productionQtyByUid := pq,
                            collapsedGroups := cg, page := p\<rparr>)"

text \<open>A total that is a count: a number that is not negative, or not a finite number at all.\<close>

definition is_count :: "jsnum \<Rightarrow> bool" where
  "is_count t = (case t of Num n \<Rightarrow> 0 \<le> n | _ \<Rightarrow> True)"

lemma total_apply_setter:
  "0 \<le> total st \<Longrightarrow> (\<forall>t. e = SetTotal t \<longrightarrow> 0 \<le> t) \<Longrightarrow> 0 \<le> total (apply_setter st e)"
  by (cases e) simp_all

lemma total_foldl_apply_setter:
  "0 \<le> total st \<Longrightarrow> (\<forall>t. SetTotal t \<in> set es \<longrightarrow> 0 \<le> t) \<Longrightarrow> 0 \<le> total (foldl apply_setter st es)"
proof (induction es arbitrary: st)
  case Nil
  then show ?case by simp
next
  case (Cons e es)
  have "0 \<le> total (apply_setter st e)"
    using Cons.prems by (intro total_apply_setter) auto
  then show ?case using Cons.IH Cons.prems(2) by simp
qed

lemma total_run_cycle: "0 \<le> total st \<Longrightarrow> 0 \<le> total (run_cycle env inp st)"
  unfolding run_cycle_def using load_SetTotal by (intro total_foldl_apply_setter) auto

lemma total_run_fetch:
  assumes "0 \<le> total st" and "\<forall>data. res = Ok data \<longrightarrow> is_count (body_total data)"
  shows "0 \<le> total (run_fetch superseded res st)"
  unfolding run_fetch_def
proof (intro total_foldl_apply_setter assms(1) allI impI)
  fix t
  assume "SetTotal t \<in> set (useSalesOrders_load superseded res)"
  from useSalesOrders_load_SetTotal [OF this]
  show "0 \<le> t"
  proof
    assume "t = 0"
    then show ?thesis by simp
  next
    assume "\<exists>data. res = Ok data \<and>
                t = (case body_total data of Num n \<Rightarrow> n | _ \<Rightarrow> int (length (body_rows data)))"
    then obtain data where d: "res = Ok data"
      and t: "t = (case body_total data of Num n \<Rightarrow> n | _ \<Rightarrow> int (length (body_rows data)))"
      by blast
    from assms(2) d have "is_count (body_total data)" by simp
    with t show ?thesis by (cases "body_total data") (simp_all add: is_count_def)
  qed
qed

lemma total_handleVerifySelected:
  "total (handleVerifySelected res cl st) =
     (if res = Ok () \<and> rowsToSend cl \<noteq> []
      then max 0 (total st - int (length (rowsToSend cl)))
      else total st)"
  by (cases res) (simp_all add: handleVerifySelected_def Let_def)

lemma total_handleSaveDispatched:
  "total (handleSaveDispatched res cl st) =
     (if res = Ok () \<and> filter (selected_uid cl) (rows cl) \<noteq> []
      then max 0 (total st - int (length (filter (selected_uid cl) (rows cl))))
      else total st)"
proof (cases "filter (selected_uid cl) (rows cl) = []")
  case True
  then show ?thesis by (simp add: handleSaveDispatched_def Let_def)
next
  case False
  then obtain r where "selected_uid cl r" by (auto simp: filter_empty_conv)
  then have "map fst (filter snd (checked cl)) \<noteq> []" by (rule selected_uid_checked)
  with False show ?thesis
    by (cases res) (simp_all add: handleSaveDispatched_def Let_def)
qed

lemma total_handleCancelOrder: "total (handleCancelOrder res order st) = total st"
  by (auto simp: handleCancelOrder_def split: response.splits)

lemma total_on_verified_confirmed: "total (on_verified_confirmed env idx ty row st) = total st"
  by (auto simp: on_verified_confirmed_def Let_def split: option.splits)

lemma reachable_total: "reachable is_count st \<Longrightarrow> 0 \<le> total st"
proof (induction rule: reachable.induct)
  case start
  show ?case by (simp add: initial_state_def)
next
  case (fetch st res superseded)
  then show ?case by (intro total_run_fetch) auto
next
  case (cycle st env inp)
  then show ?case by (simp add: total_run_cycle)
next
  case (verify cl st res')
  then show ?case by (simp add: total_handleVerifySelected)
next
  case (dispatch cl st res')
  then show ?case by (simp add: total_handleSaveDispatched)
next
  case (cancel st res' order)
  then show ?case by (simp add: total_handleCancelOrder)
next
  case (confirmed st env idx ty row)
  then show ?case by (simp add: total_on_verified_confirmed)
next
  case (select st c sc pq cg p)
  then show ?case by simp
qed

definition negative_report :: "orders_body response" where
  "negative_report = Ok \<lparr>body_rows = [], body_total = Num (- 3)\<rparr>"

text \<open>
  C10, as the specification states it, fails: the cycle and the two actions are not the
  only operations that update the total. The fetch of the hook stores the total the
  order boundary reports as it comes, without a clamp: on a reported total of \<open>-3\<close> the
  displayed total is \<open>-3\<close>.
\<close>

theorem unclamped_total_counterexample:
  "SetTotal (- 3) \<in> set (useSalesOrders_load False negative_report) \<and>
   total (run_fetch False negative_report initial_state) = - 3 \<and>
   reachable (\<lambda>t. True) (run_fetch False negative_report initial_state)"
proof -
  have "reachable (\<lambda>t. True) (run_fetch False negative_report initial_state)"
    by (intro reachable.fetch reachable.start) simp
  moreover have "SetTotal (- 3) \<in> set (useSalesOrders_load False negative_report) \<and>
      total (run_fetch False negative_report initial_state) = - 3"
    by code_simp
  ultimately show ?thesis by simp
qed

text \<open>
  C10, amended: the total starts at 0; every total a cycle sets is at least 0 (it is 0, or
  the computed total, which is clamped); after a successful verify-request or
  save-dispatched action the total is the maximum of 0 and the total less the number of
  rows submitted, and otherwise these actions leave it alone; the fetch of the hook sets
  the total to 0, or to the total the order boundary reports when that is a finite number
  and to the number of rows it returns when not, without a clamp; and the total of every
  state the table reaches is at least 0 as long as the order boundary reports a count to
  the fetch of the hook.
\<close>

theorem total_never_negative:
  "total initial_state = 0 \<and>
   (\<forall>t. SetTotal t \<in> set (load env inp) \<longrightarrow> 0 \<le> t) \<and>
   computedTotal serverTotal n_incoming n_final
     = (case serverTotal of
          Num t \<Rightarrow> max 0 (t - max 0 (int n_incoming - int n_final))
        | _ \<Rightarrow> int n_final) \<and>
   total (handleVerifySelected res cl st) =
     (if res = Ok () \<and> rowsToSend cl \<noteq> []
      then max 0 (total st - int (length (rowsToSend cl)))
      else total st) \<and>
   total (handleSaveDispatched res cl st) =
     (if res = Ok () \<and> filter (selected_uid cl) (rows cl) \<noteq> []
      then max 0 (total st - int (length (filter (selected_uid cl) (rows cl))))
      else total st) \<and>
   (\<forall>t. SetTotal t \<in> set (useSalesOrders_load superseded res') \<longrightarrow>
      t = 0 \<or> (\<exists>data. res' = Ok data \<and>
                 t = (case body_total data of Num n \<Rightarrow> n | _ \<Rightarrow> int (length (body_rows data))))) \<and>
   (reachable is_count st' \<longrightarrow> 0 \<le> total st')"
proof (intro conjI)
  show "total initial_state = 0" by (simp add: initial_state_def)
  show "\<forall>t. SetTotal t \<in> set (load env inp) \<longrightarrow> 0 \<le> t" using load_SetTotal by blast
  show "computedTotal serverTotal n_incoming n_final
     = (case serverTotal of
          Num t \<Rightarrow> max 0 (t - max 0 (int n_incoming - int n_final))
        | _ \<Rightarrow> int n_final)"
    by (simp add: computedTotal_def Let_def)
  show "total (handleVerifySelected res cl st) =
     (if res = Ok () \<and> rowsToSend cl \<noteq> []
      then max 0 (total st - int (length (rowsToSend cl)))
      else total st)"
    by (rule total_handleVerifySelected)
  show "total (handleSaveDispatched res cl st) =
     (if res = Ok () \<and> filter (selected_uid cl) (rows cl) \<noteq> []
      then max 0 (total st - int (length (filter (selected_uid cl) (rows cl))))
      else total st)"
    by (rule total_handleSaveDispatched)
  show "\<forall>t. SetTotal t \<in> set (useSalesOrders_load superseded res') \<longrightarrow>
      t = 0 \<or> (\<exists>data. res' = Ok data \<and>
                 t = (case body_total data of Num n \<Rightarrow> n | _ \<Rightarrow> int (length (body_rows data))))"
    using useSalesOrders_load_SetTotal by blast
  show "reachable is_count st' \<longrightarrow> 0 \<le> total st'" using reachable_total by blast
qed

definition sample_report :: "orders_body response" where
  "sample_report = Ok \<lparr>body_rows = sample_orders, body_total = Num 40\<rparr>"

theorem total_never_negative_witness:
  "is_count (Num 40) \<and>
   total (run_fetch False sample_report initial_state) = 40 \<and>
   reachable is_count (run_cycle sample_env sample_page (run_fetch False sample_report initial_state)) \<and>
   0 \<le> total (run_cycle sample_env sample_page (run_fetch False sample_report initial_state)) \<and>
   total (run_cycle sample_env sample_page (run_fetch False sample_report initial_state)) = 38"
proof -
  let ?st = "run_cycle sample_env sample_page (run_fetch False sample_report initial_state)"
  have c: "is_count (Num 40)" by (simp add: is_count_def)
  have f: "run_fetch False sample_report initial_state
             = initial_state\<lparr>rows := sample_orders, total := 40\<rparr>"
    by (simp add: run_fetch_def useSalesOrders_load_def sample_report_def with_signal_def
        initial_state_def)
  have r: "reachable is_count ?st"
    by (intro reachable.cycle reachable.fetch reachable.start) (simp add: sample_report_def c)
  from total_never_negative [where st' = ?st
      and env = sample_env and inp = sample_page and serverTotal = NaN and n_incoming = 0
      and n_final = 0 and res = NotOk and st = initial_state and cl = initial_state
      and superseded = False and res' = NotOk]
  have "reachable is_count ?st \<longrightarrow> 0 \<le> total ?st"
    by (elim conjE)
  with r have p: "0 \<le> total ?st" by (rule rev_mp)
  have "page (initial_state\<lparr>rows := sample_orders, total := 40\<rparr>) = 0 \<and>
        pendingMap (initial_state\<lparr>rows := sample_orders, total := 40\<rparr>) = []"
    by (simp add: initial_state_def)
  then have t: "total ?st = 38"
    by (simp add: f run_cycle_def sample_page_start sample_load)
  from c f r p t show ?thesis by simp
qed

end
